theory Spec2Isabelle
  imports
    Complex_Main
    "HOL-Library.Word"
    "HOL-Library.Signed_Division"
    "HOL-Library.Multiset"
    "HOL-Library.List_Lexorder"
    "HOL-Library.Char_ord"
    "HOL-Library.AList"
begin

chapter \<open>dnspyre: scoring, ranking, batch driver, exit codes and geocode\<close>

text \<open>
  Conventions of the embedding.
  \<^item> Go's \<open>int64\<close> is \<open>64 word\<close>: \<open>+\<close> wraps, comparisons and conversions read the
    word through \<open>sint\<close>, and the quotient truncates towards zero.
  \<^item> The arithmetic of \<open>CalculateScore\<close> is over \<open>real\<close>: rounding, infinities and NaN
    are not represented there. Every division of the scoring code is kept as written; HOL's
    \<open>x / 0 = 0\<close> stands where Go yields an infinity or NaN.
  \<^item> Where the program only compares \<open>float64\<close> values (the ranking), they are values
    of the type \<open>float64\<close> below, which has NaN and the two infinities, and the
    comparison is the IEEE one: it is false as soon as one side is NaN.
  \<^item> Library calls (GeoIP database, resolver, benchmark run, report printing) are
    parameters of the functions that make them.
\<close>

section \<open>Package scoring\<close>

type_synonym int64 = "64 word"

definition float64_of :: "int64 \<Rightarrow> real" where
  \<comment> \<open>the conversion \<open>float64(x)\<close> of an \<open>int64\<close>\<close>
  "float64_of x = real_of_int (sint x)"

definition int64_quo :: "int64 \<Rightarrow> int64 \<Rightarrow> int64" where
  \<comment> \<open>Go's \<open>/\<close> on \<open>int64\<close>: truncated towards zero\<close>
  "int64_quo a b = word_of_int (sint a sdiv sint b)"

text \<open>
  The score record is generic in the type of its numbers: \<open>real\<close> where they are computed,
  \<open>float64\<close> where they are compared.
\<close>

record 'n ScoreResult =
  Total :: 'n
  SuccessRate :: 'n
  ErrorRate :: 'n
  Latency :: 'n
  QPS :: 'n

definition SuccessRateScoreWeight :: real where "SuccessRateScoreWeight = 35.0"
definition ErrorRateScoreWeight :: real where "ErrorRateScoreWeight = 10.0"
definition LatencyScoreWeight :: real where "LatencyScoreWeight = 50.0"
definition QPSScoreWeight :: real where "QPSScoreWeight = 5.0"
definition LatencyRangeMax :: real where "LatencyRangeMax = 1000.0"
definition LatencyRangeMin :: real where "LatencyRangeMin = 0.1"
definition LatencyFullMarkPoint :: real where "LatencyFullMarkPoint = 50.0"
definition MaxQPS :: real where "MaxQPS = 100.0"

record LatencyMetrics =
  MeanMs :: int64
  StdMs :: int64
  P50Ms :: int64
  P95Ms :: int64

record BenchmarkMetrics =
  TotalRequests :: int64
  TotalSuccessResponses :: int64
  TotalErrorResponses :: int64
  TotalIOErrors :: int64
  QueriesPerSecond :: real
  LatencyStats :: LatencyMetrics

definition zeroScore :: "real ScoreResult" where
  \<comment> \<open>the composite literal \<open>ScoreResult{}\<close>\<close>
  "zeroScore = \<lparr>Total = 0, SuccessRate = 0, ErrorRate = 0, Latency = 0, QPS = 0\<rparr>"

definition successRateScore :: "BenchmarkMetrics \<Rightarrow> real" where
  "successRateScore metrics =
     (let successRate = float64_of (TotalSuccessResponses metrics) / float64_of (TotalRequests metrics)
      in successRate * 100)"

definition errorRateScore :: "BenchmarkMetrics \<Rightarrow> real" where
  "errorRateScore metrics =
     (let errorRate = float64_of (TotalErrorResponses metrics + TotalIOErrors metrics)
                        / float64_of (TotalRequests metrics);
          errorRateScore = 100 * (1 - errorRate)
      in max 0 (min 100 errorRateScore))"

definition averagedMeanMs :: "LatencyMetrics \<Rightarrow> real" where
  \<comment> \<open>\<open>meanMs := float64((MeanMs + P50Ms) / 2)\<close>: the sum and the quotient are \<open>int64\<close>\<close>
  "averagedMeanMs ls = float64_of (int64_quo (MeanMs ls + P50Ms ls) 2)"

definition latencyScore :: "BenchmarkMetrics \<Rightarrow> real" where
  "latencyScore metrics =
     (let ls = LatencyStats metrics;
          meanMs = averagedMeanMs ls;
          latencyScore =
            (if meanMs < LatencyRangeMin then 95.0
             else if meanMs > LatencyRangeMax then 0
             else
               (let latencyScore = 100 * (1 - (meanMs - LatencyRangeMin) / (LatencyRangeMax - LatencyRangeMin));
                    latencyScore = max 0 (min 100 latencyScore)
                in if meanMs > 0
                   then (let stdPenalty = float64_of (StdMs ls) / meanMs * 5
                         in max 0 (latencyScore - stdPenalty))
                   else latencyScore))
      in if sint (P95Ms ls) > sint (1000 :: int64) then latencyScore * 0.7 else latencyScore)"

definition qpsScore :: "BenchmarkMetrics \<Rightarrow> real" where
  "qpsScore metrics =
     (let qpsScore = 100 * ln (1 + QueriesPerSecond metrics) / ln (1 + MaxQPS)
      in min 100 qpsScore)"

definition CalculateScore :: "BenchmarkMetrics \<Rightarrow> real ScoreResult" where
  "CalculateScore metrics =
     (if TotalSuccessResponses metrics = 0 then zeroScore
      else
        (let totalScore = (successRateScore metrics * SuccessRateScoreWeight
                           + errorRateScore metrics * ErrorRateScoreWeight
                           + latencyScore metrics * LatencyScoreWeight
                           + qpsScore metrics * QPSScoreWeight) / 100
         in \<lparr>Total = totalScore,
             SuccessRate = successRateScore metrics,
             ErrorRate = errorRateScore metrics,
             Latency = latencyScore metrics,
             QPS = qpsScore metrics\<rparr>))"

text \<open>
  The latency score in the words of the specification, as a function of the averaged
  latency \<open>m\<close>, the standard deviation and the 95th percentile (all in milliseconds):
  95 below 0.1, 0 above 1000, else the linear score less the deviation penalty, floored at 0;
  the result times 0.7 when the percentile exceeds 1000.
\<close>

definition spec_latency :: "real \<Rightarrow> real \<Rightarrow> real \<Rightarrow> real" where
  "spec_latency m std p95 =
     (let v = (if m < 0.1 then 95
               else if m > 1000 then 0
               else max 0 (100 * (1 - (m - 0.1) / (1000 - 0.1)) - std / m * 5))
      in if p95 > 1000 then v * 0.7 else v)"

subsection \<open>Comparing float64 values\<close>

datatype float64 = NaN | NegInf | Finite real | PosInf

text \<open>Go's \<open><\<close> on \<open>float64\<close>.\<close>

fun float64_less :: "float64 \<Rightarrow> float64 \<Rightarrow> bool" where
  "float64_less NaN y = False"
| "float64_less x NaN = False"
| "float64_less PosInf y = False"
| "float64_less x NegInf = False"
| "float64_less NegInf y = True"
| "float64_less x PosInf = True"
| "float64_less (Finite a) (Finite b) = (a < b)"

text \<open>Go's \<open><=\<close> on \<open>float64\<close>: less, or equal and not NaN.\<close>

definition float64_le :: "float64 \<Rightarrow> float64 \<Rightarrow> bool" where
  "float64_le x y = (float64_less x y \<or> (x \<noteq> NaN \<and> x = y))"

subsection \<open>RankServers\<close>

record ServerRank =
  Server :: string
  Score :: "float64 ScoreResult"

text \<open>
  The inner loop \<open>for j := i + 1; j < len(rankings); j++\<close> of the exchange sort, entered at
  \<open>j\<close>; the swap \<open>rankings[i], rankings[j] = rankings[j], rankings[i]\<close> reads both
  elements before it writes.
\<close>

function sort_inner :: "nat \<Rightarrow> nat \<Rightarrow> ServerRank list \<Rightarrow> ServerRank list" where
  "sort_inner i j rankings =
     (if j < length rankings
      then sort_inner i (j + 1)
             (if float64_less (Total (Score (rankings ! i))) (Total (Score (rankings ! j)))
              then rankings[i := rankings ! j, j := rankings ! i]
              else rankings)
      else rankings)"
  by pat_completeness auto
termination
  by (relation "measure (\<lambda>(i, j, rankings). length rankings - j)") auto

declare sort_inner.simps [simp del]

text \<open>The outer loop \<open>for i := 0; i < len(rankings); i++\<close>, entered at \<open>i\<close>.\<close>

function sort_outer :: "nat \<Rightarrow> ServerRank list \<Rightarrow> ServerRank list" where
  "sort_outer i rankings =
     (if i < length rankings
      then sort_outer (i + 1) (sort_inner i (i + 1) rankings)
      else rankings)"
  by pat_completeness auto
termination
proof (relation "measure (\<lambda>(i, rankings). length rankings - i)")
  show "wf (measure (\<lambda>(i, rankings). length rankings - i))" by simp
next
  fix i :: nat and rankings :: "ServerRank list"
  assume a: "i < length rankings"
  have len: "length (sort_inner a b rs) = length rs" for a b rs
  proof (induction a b rs rule: sort_inner.induct)
    case (1 a b rs)
    show ?case
    proof (cases "b < length rs")
      case True
      then show ?thesis using "1.IH" [OF True] by (subst sort_inner.simps) simp
    next
      case False
      then show ?thesis by (subst sort_inner.simps) simp
    qed
  qed
  show "((i + 1, sort_inner i (i + 1) rankings), (i, rankings))
          \<in> measure (\<lambda>(i, rankings). length rankings - i)"
    using a by (simp add: len)
qed

declare sort_outer.simps [simp del]

text \<open>
  \<open>for server, score := range servers\<close> visits the entries of the map in an order the Go
  runtime picks. \<open>entries\<close> is that sequence: the entries of the map, each once.
\<close>

definition RankServers :: "(string \<times> float64 ScoreResult) list \<Rightarrow> ServerRank list" where
  "RankServers entries =
     (let rankings = map (\<lambda>(server, score). \<lparr>Server = server, Score = score\<rparr>) entries
      in sort_outer 0 rankings)"

text \<open>
  The order of the ranking: the second entry's total is less than or equal to the first's,
  as \<open>float64\<close> values.
\<close>

definition by_total_desc :: "ServerRank \<Rightarrow> ServerRank \<Rightarrow> bool" where
  "by_total_desc a b = float64_le (Total (Score b)) (Total (Score a))"

section \<open>Go library functions used by the commands\<close>

subsection \<open>Package strings\<close>

text \<open>
  Strings are byte sequences, read as UTF-8 where the library decodes them.
\<close>

definition HasPrefix :: "string \<Rightarrow> string \<Rightarrow> bool" where
  "HasPrefix s pre = (length pre \<le> length s \<and> take (length pre) s = pre)"

definition HasSuffix :: "string \<Rightarrow> string \<Rightarrow> bool" where
  "HasSuffix s suf = (length suf \<le> length s \<and> drop (length s - length suf) s = suf)"

text \<open>
  The UTF-8 encodings of the code points for which \<open>unicode.IsSpace\<close> holds: U+0009 to
  U+000D, U+0020, U+0085, U+00A0, U+1680, U+2000 to U+200A, U+2028, U+2029, U+202F, U+205F
  and U+3000. A string begins (ends) with a white space character exactly when it begins
  (ends) with one of these byte sequences: no other byte sequence decodes to one of the code
  points, and none of the sequences is the end of another.
\<close>

definition spaceRunes :: "string list" where
  "spaceRunes =
     [ [CHR 0x09], [CHR 0x0A], [CHR 0x0B], [CHR 0x0C], [CHR 0x0D], [CHR 0x20],
      [CHR 0xC2, CHR 0x85], [CHR 0xC2, CHR 0xA0],
      [CHR 0xE1, CHR 0x9A, CHR 0x80],
      [CHR 0xE2, CHR 0x80, CHR 0x80], [CHR 0xE2, CHR 0x80, CHR 0x81], [CHR 0xE2, CHR 0x80, CHR 0x82],
      [CHR 0xE2, CHR 0x80, CHR 0x83], [CHR 0xE2, CHR 0x80, CHR 0x84], [CHR 0xE2, CHR 0x80, CHR 0x85],
      [CHR 0xE2, CHR 0x80, CHR 0x86], [CHR 0xE2, CHR 0x80, CHR 0x87], [CHR 0xE2, CHR 0x80, CHR 0x88],
      [CHR 0xE2, CHR 0x80, CHR 0x89], [CHR 0xE2, CHR 0x80, CHR 0x8A],
      [CHR 0xE2, CHR 0x80, CHR 0xA8], [CHR 0xE2, CHR 0x80, CHR 0xA9], [CHR 0xE2, CHR 0x80, CHR 0xAF],
      [CHR 0xE2, CHR 0x81, CHR 0x9F],
      [CHR 0xE3, CHR 0x80, CHR 0x80] ]"

text \<open>\<open>TrimLeftFunc(s, unicode.IsSpace)\<close>: white space characters are dropped from the front.\<close>

function TrimLeftSpace :: "string \<Rightarrow> string" where
  "TrimLeftSpace s =
     (case find (HasPrefix s) spaceRunes of
        None \<Rightarrow> s
      | Some rune \<Rightarrow> TrimLeftSpace (drop (length rune) s))"
  by pat_completeness auto
termination
proof (relation "measure length")
  show "wf (measure length)" by simp
next
  fix s rune :: string
  assume "find (HasPrefix s) spaceRunes = Some rune"
  then have "rune \<in> set spaceRunes" and "HasPrefix s rune"
    by (auto simp: find_Some_iff)
  moreover have "[] \<notin> set spaceRunes" by (simp add: spaceRunes_def)
  ultimately have "0 < length rune" and "length rune \<le> length s"
    by (auto simp: HasPrefix_def)
  then have "length s - length rune < length s" by linarith
  then show "(drop (length rune) s, s) \<in> measure length" by simp
qed

declare TrimLeftSpace.simps [simp del]

text \<open>\<open>TrimRightFunc(s, unicode.IsSpace)\<close>: white space characters are dropped from the end.\<close>

function TrimRightSpace :: "string \<Rightarrow> string" where
  "TrimRightSpace s =
     (case find (HasSuffix s) spaceRunes of
        None \<Rightarrow> s
      | Some rune \<Rightarrow> TrimRightSpace (take (length s - length rune) s))"
  by pat_completeness auto
termination
proof (relation "measure length")
  show "wf (measure length)" by simp
next
  fix s rune :: string
  assume "find (HasSuffix s) spaceRunes = Some rune"
  then have "rune \<in> set spaceRunes" and "HasSuffix s rune"
    by (auto simp: find_Some_iff)
  moreover have "[] \<notin> set spaceRunes" by (simp add: spaceRunes_def)
  ultimately have "0 < length rune" and "length rune \<le> length s"
    by (auto simp: HasSuffix_def)
  then have "length s - length rune < length s" by linarith
  then show "(take (length s - length rune) s, s) \<in> measure length" by simp
qed

declare TrimRightSpace.simps [simp del]

definition TrimSpace :: "string \<Rightarrow> string" where
  "TrimSpace s = TrimRightSpace (TrimLeftSpace s)"

definition TrimPrefix :: "string \<Rightarrow> string \<Rightarrow> string" where
  "TrimPrefix s pre = (if HasPrefix s pre then drop (length pre) s else s)"

definition TrimSuffix :: "string \<Rightarrow> string \<Rightarrow> string" where
  "TrimSuffix s suf = (if HasSuffix s suf then take (length s - length suf) s else s)"

fun Index :: "string \<Rightarrow> string \<Rightarrow> nat option" where
  "Index [] substr = (if substr = [] then Some 0 else None)"
| "Index (c # s) substr =
     (if HasPrefix (c # s) substr then Some 0
      else (case Index s substr of None \<Rightarrow> None | Some i \<Rightarrow> Some (i + 1)))"

definition Contains :: "string \<Rightarrow> string \<Rightarrow> bool" where
  "Contains s substr = (Index s substr \<noteq> None)"

text \<open>\<open>SplitN s sep n\<close> for a non-empty separator and \<open>n \<ge> 0\<close>.\<close>

fun SplitN :: "string \<Rightarrow> string \<Rightarrow> nat \<Rightarrow> string list" where
  "SplitN s sep 0 = []"
| "SplitN s sep (Suc 0) = [s]"
| "SplitN s sep (Suc (Suc n)) =
     (case Index s sep of
        None \<Rightarrow> [s]
      | Some i \<Rightarrow> take i s # SplitN (drop (i + length sep) s) sep (Suc n))"

text \<open>\<open>Split s sep\<close>; an empty separator splits after each byte.\<close>

function Split :: "string \<Rightarrow> string \<Rightarrow> string list" where
  "Split s sep =
     (if sep = [] then map (\<lambda>c. [c]) s
      else (case Index s sep of
              None \<Rightarrow> [s]
            | Some i \<Rightarrow> take i s # Split (drop (i + length sep) s) sep))"
  by pat_completeness auto
termination
proof (relation "measure (\<lambda>(s, sep). length s)")
  show "wf (measure (\<lambda>(s, sep). length s))" by simp
next
  fix s sep :: string and i :: nat
  assume sep: "sep \<noteq> []" and idx: "Index s sep = Some i"
  have bound: "Index t sep = Some k \<Longrightarrow> k + length sep \<le> length t" for t k
  proof (induction t arbitrary: k)
    case Nil
    then show ?case by (simp split: if_splits)
  next
    case (Cons c t)
    then show ?case
      by (auto simp: HasPrefix_def split: if_splits option.splits)
  qed
  from bound [OF idx] sep have "0 < length s" by (cases sep) auto
  then show "((drop (i + length sep) s, sep), (s, sep)) \<in> measure (\<lambda>(s, sep). length s)"
    using sep by simp
qed

declare Split.simps [simp del]

subsection \<open>Package strconv\<close>

definition isDigit :: "char \<Rightarrow> bool" where
  "isDigit c = (of_char c \<ge> (48 :: nat) \<and> of_char c \<le> (57 :: nat))"

definition digitsValue :: "string \<Rightarrow> int" where
  "digitsValue ds = foldl (\<lambda>acc c. 10 * acc + (int (of_char c) - 48)) 0 ds"

definition Atoi :: "string \<Rightarrow> int option" where
  \<comment> \<open>\<open>None\<close> stands for a non-nil error: a syntax error, or a value outside \<open>int\<close>\<close>
  "Atoi s =
     (let neg = (s \<noteq> [] \<and> hd s = CHR ''-'');
          body = (if s \<noteq> [] \<and> (hd s = CHR ''+'' \<or> hd s = CHR ''-'') then tl s else s)
      in if body = [] \<or> \<not> list_all isDigit body then None
         else (let v = (if neg then - digitsValue body else digitsValue body)
               in if v < - (2 ^ 63) \<or> 2 ^ 63 \<le> v then None else Some v))"

subsection \<open>Package encoding/json\<close>

text \<open>
  A JSON object is the sequence of its members in the order they are written.
  \<open>json.MarshalIndent\<close> writes a Go map with its keys sorted as byte strings. The values
  of the batch map were decoded from JSON, so encoding them does not fail.
\<close>

definition MarshalIndent :: "(string \<times> 'v) list \<Rightarrow> (string \<times> 'v) list" where
  "MarshalIndent m = sort_key fst m"

section \<open>Package geo\<close>

type_synonym error = string

text \<open>
  The calls that leave the program are fields of an environment: \<open>geoip2.Open\<close>,
  \<open>net.LookupIP\<close>, the \<open>Country\<close> lookup of an open database (its result is reduced to
  \<open>record.Country.IsoCode\<close>), and the methods of \<open>net.IP\<close>. A Go result pair
  \<open>(value, err)\<close> is a pair whose second component is \<open>None\<close> for a nil error; a
  pointer that may be nil is an \<open>option\<close>.
\<close>

record ('db, 'ip) geo_env =
  geoip2_Open :: "string \<Rightarrow> 'db option \<times> error option"
  net_LookupIP :: "string \<Rightarrow> 'ip list \<times> error option"
  Reader_Country :: "'db \<Rightarrow> 'ip \<Rightarrow> string \<times> error option"
  IP_To4 :: "'ip \<Rightarrow> bool"
  IP_IsPrivate :: "'ip \<Rightarrow> bool"
  IP_IsUnspecified :: "'ip \<Rightarrow> bool"
  IP_String :: "'ip \<Rightarrow> string"

record 'db GeoService =
  db :: "'db option"

definition dbPaths :: "string list" where
  "dbPaths = [''res/Country.mmdb'', ''../res/Country.mmdb'', ''frontend/res/Country.mmdb'', ''./Country.mmdb'']"

text \<open>
  The loop of \<open>NewGeoService\<close> over \<open>dbPaths\<close>, with the variables \<open>db\<close> and \<open>err\<close>
  as state (the reader and the error of the last attempt); it stops at the first path that opens.
\<close>

fun openFirst :: "('db, 'ip, 'x) geo_env_scheme \<Rightarrow> string list \<Rightarrow> 'db option \<times> error option
    \<Rightarrow> 'db option \<times> error option" where
  "openFirst env [] (reader, err) = (reader, err)"
| "openFirst env (path # paths) (reader, err) =
     (case geoip2_Open env path of
        (reader', err') \<Rightarrow>
          if err' = None then (reader', err') else openFirst env paths (reader', err'))"

definition NewGeoService :: "('db, 'ip, 'x) geo_env_scheme \<Rightarrow> 'db GeoService option \<times> error option" where
  "NewGeoService env =
     (case openFirst env dbPaths (None, None) of
        (reader, err) \<Rightarrow>
          if err \<noteq> None
          then (None, Some (''GeoIP service not available - database not found: '' @ the err))
          else (Some \<lparr>db = reader\<rparr>, None))"

definition checkIPGeo :: "('db, 'ip, 'x) geo_env_scheme \<Rightarrow> 'db GeoService \<Rightarrow> 'ip \<Rightarrow> string \<times> error option" where
  "checkIPGeo env g ip =
     (case db g of
        None \<Rightarrow> (''UNKNOWN'', Some ''GeoIP database not available'')
      | Some reader \<Rightarrow>
          (case Reader_Country env reader ip of
             (isoCode, err) \<Rightarrow>
               if err \<noteq> None then (''CDN'', err)
               else if isoCode = [] then (''CDN'', None)
               else (isoCode, None)))"

text \<open>The host that \<open>CheckGeo\<close> resolves for a server in URL format.\<close>

definition urlHost :: "string \<Rightarrow> string" where
  "urlHost server0 =
     (let server = TrimPrefix server0 ''https://'';
          server = TrimPrefix server ''tls://'';
          server = TrimPrefix server ''quic://'';
          server = TrimPrefix server ''http://'';
          server = (if Contains server ''/'' then SplitN server ''/'' 2 ! 0 else server)
      in if Contains server ''['' \<and> Contains server '']''
         then TrimPrefix (SplitN server '']'' 2 ! 0) ''[''
         else if Contains server '':'' then SplitN server '':'' 2 ! 0
         else server)"

text \<open>The host that \<open>CheckGeo\<close> resolves for an IP address or hostname with an optional port.\<close>

definition plainHost :: "string \<Rightarrow> string" where
  "plainHost server =
     (let parts = SplitN server '':'' 2
      in if length parts > 1
         then (case Atoi (parts ! 1) of
                 Some port \<Rightarrow> if port > 0 \<and> port < 65536 then parts ! 0 else server
               | None \<Rightarrow> server)
         else server)"

text \<open>
  The two branches of \<open>CheckGeo\<close> that turn the server string into one IP address: the
  error message of the early return, or the address chosen from the resolver's answer.
\<close>

definition resolveIP :: "('db, 'ip, 'x) geo_env_scheme \<Rightarrow> string \<Rightarrow> bool \<Rightarrow> error + 'ip" where
  "resolveIP env server preferIPv4 =
     (if Contains server ''://''
      then (case net_LookupIP env (urlHost server) of
              (ips, err) \<Rightarrow>
                if err \<noteq> None \<or> length ips = 0
                then Inl ''unable to resolve IP address''
                else if length ips = 1 then Inr (ips ! 0)
                else if preferIPv4
                then (case find (IP_To4 env) ips of
                        Some ip4 \<Rightarrow> Inr ip4
                      | None \<Rightarrow> Inr (ips ! 0))
                else Inr (ips ! 0))
      else (case net_LookupIP env (plainHost server) of
              (ips, err) \<Rightarrow>
                if err \<noteq> None \<or> length ips = 0
                then Inl ''local resolver cannot resolve host IP address''
                else Inr (ips ! 0)))"

definition CheckGeo :: "('db, 'ip, 'x) geo_env_scheme \<Rightarrow> 'db GeoService \<Rightarrow> string \<Rightarrow> bool
    \<Rightarrow> string \<times> string \<times> error option" where
  "CheckGeo env g server0 preferIPv4 =
     (if db g = None then (''0.0.0.0'', ''UNKNOWN'', Some ''GeoIP database not available'')
      else
        (let server = TrimSpace server0;
             server = TrimSuffix server ''/''
         in if server = [] then (''0.0.0.0'', ''PRIVATE'', Some ''empty server address'')
            else
              (case resolveIP env server preferIPv4 of
                 Inl msg \<Rightarrow> (''0.0.0.0'', ''PRIVATE'', Some msg)
               | Inr ip \<Rightarrow>
                   if IP_IsPrivate env ip \<or> IP_IsUnspecified env ip
                   then (IP_String env ip, ''PRIVATE'', None)
                   else (case checkIPGeo env g ip of
                           (geoCode, err) \<Rightarrow> (IP_String env ip, geoCode, err)))))"

section \<open>Package cmd\<close>

subsection \<open>getServerGeocode\<close>

definition getServerGeocode :: "('db, 'ip, 'x) geo_env_scheme \<Rightarrow> string \<Rightarrow> string" where
  "getServerGeocode env server =
     (case NewGeoService env of
        (geoService, err) \<Rightarrow>
          (case geoService of
             Some g \<Rightarrow>
               if err = None
               then (case CheckGeo env g server True of
                       (ip, geoCode, err') \<Rightarrow> if err' = None then geoCode else ''XX'')
               else ''XX''
           | None \<Rightarrow> ''XX''))"

text \<open>A two-letter code in capitals, the form of an ISO 3166-1 alpha-2 country code.\<close>

definition isAlpha2 :: "string \<Rightarrow> bool" where
  "isAlpha2 s = (length s = 2 \<and> list_all (\<lambda>c. (65 :: nat) \<le> of_char c \<and> of_char c \<le> (90 :: nat)) s)"

subsection \<open>The benchmark configuration\<close>

text \<open>
  The declaration of \<open>dnsbench.Benchmark\<close> is outside the files at hand. The record has
  the fields that the flag definitions of \<open>init\<close> and the variable \<open>benchmark\<close> name, with
  the types the flag setters fix; any further field is in the extension of the record scheme.
  Go's \<open>int\<close> is taken as 64 bits wide and \<open>time.Duration\<close> is an \<open>int64\<close>.
\<close>

datatype Writer = Stdout | BytesBuffer

type_synonym Duration = int64

record Benchmark =
  Server :: string
  Types :: "string list"
  Count :: int64
  Concurrency :: "32 word"
  Rate :: int64
  RateLimitWorker :: int64
  QperConn :: int64
  Recurse :: bool
  Probability :: real
  EdnsOpt :: string
  DNSSEC :: bool
  Edns0 :: "16 word"
  TCP :: bool
  DOT :: bool
  WriteTimeout :: Duration
  ReadTimeout :: Duration
  ConnectTimeout :: Duration
  RequestTimeout :: Duration
  Rcodes :: bool
  HistMin :: Duration
  HistMax :: Duration
  HistPre :: int64
  HistDisplay :: bool
  Csv :: string
  JSON :: bool
  BatchJSON :: string
  HTML :: string
  Silent :: bool
  Color :: bool
  PlotDir :: string
  PlotFormat :: string
  DohMethod :: string
  DohProtocol :: string
  Insecure :: bool
  Duration :: Duration
  ProgressBar :: bool
  RequestLogEnabled :: bool
  RequestLogPath :: string
  SeparateWorkerConnections :: bool
  RequestDelay :: string
  PrometheusMetricsAddr :: string
  Queries :: "string list"
  Writer :: Writer

subsection \<open>runBatchBenchmark\<close>

text \<open>
  The calls of one pass of the loop that leave the program: \<open>Benchmark.Run\<close> on the
  per-server configuration (a method that may write to its receiver: it returns the
  configuration as it leaves it, with its result), \<open>reporter.PrintReport\<close> (it writes the JSON report to the
  configuration's writer, here the buffer) and \<open>json.Unmarshal\<close> (it yields the members of
  the decoded object, in the order a later \<open>range\<close> visits them). The first argument of
  \<open>Run\<close> and \<open>PrintReport\<close> is the number of the pass; it stands for the clock
  readings and the state of the network at that moment.
\<close>

record ('res, 'v, 'z) batch_env =
  Run :: "nat \<Rightarrow> 'z Benchmark_scheme \<Rightarrow> 'z Benchmark_scheme \<times> (error + 'res)"
  PrintReport :: "nat \<Rightarrow> 'z Benchmark_scheme \<Rightarrow> 'res \<Rightarrow> string \<Rightarrow> error + string"
  Unmarshal :: "string \<Rightarrow> error + (string \<times> 'v) list"

text \<open>
  The configuration of a sub-run:
  \<open>serverBenchmark := benchmark; serverBenchmark.Server = server;
  serverBenchmark.JSON = true; serverBenchmark.Silent = true\<close>.
\<close>

definition serverBenchmark :: "'z Benchmark_scheme \<Rightarrow> string \<Rightarrow> 'z Benchmark_scheme" where
  "serverBenchmark benchmark server = benchmark\<lparr>Server := server, JSON := True, Silent := True\<rparr>"

text \<open>
  \<open>generateJSONForServer\<close>: the report is printed with the writer set to a buffer and
  \<open>Silent\<close> off; both fields are restored on every path, so only the bytes (or the error)
  leave the function.
\<close>

definition generateJSONForServer ::
  "('db, 'ip, 'x) geo_env_scheme \<Rightarrow> ('res, 'v, 'z, 'y) batch_env_scheme \<Rightarrow> nat
     \<Rightarrow> 'z Benchmark_scheme \<Rightarrow> 'res \<Rightarrow> string \<Rightarrow> error + string" where
  "generateJSONForServer genv env pass bench res server =
     (let geocode = getServerGeocode genv server
      in PrintReport env pass (bench\<lparr>Writer := BytesBuffer, Silent := False\<rparr>) res geocode)"

text \<open>
  One pass of the loop body. The first component of the result lists the receivers of the
  calls of \<open>Run\<close> that the pass makes (none or one): the effect of the pass on the benchmark
  engine. The second is the assignment \<open>batchResults[server] = \<dots>\<close> that the pass makes, if
  it makes one. A pass ends without an assignment when the trimmed name is empty, on each
  \<open>continue\<close>, and when the decoded object has no member.
\<close>

definition batchPass ::
  "('db, 'ip, 'x) geo_env_scheme \<Rightarrow> ('res, 'v, 'z, 'y) batch_env_scheme \<Rightarrow> 'z Benchmark_scheme
     \<Rightarrow> nat \<Rightarrow> string \<Rightarrow> 'z Benchmark_scheme list \<times> (string \<times> 'v) option" where
  "batchPass genv env benchmark pass server0 =
     (let server = TrimSpace server0
      in if server = [] then ([], None)
         else
           ([serverBenchmark benchmark server],
            (case Run env pass (serverBenchmark benchmark server) of
               (bench, Inl err) \<Rightarrow> None
             | (bench, Inr res) \<Rightarrow>
                 (case generateJSONForServer genv env pass bench res server of
                    Inl err \<Rightarrow> None
                  | Inr jsonData \<Rightarrow>
                      (case Unmarshal env jsonData of
                         Inl err \<Rightarrow> None
                       | Inr multiServerResult \<Rightarrow>
                           (case map_of multiServerResult server of
                              Some serverResult \<Rightarrow> Some (server, serverResult)
                            | None \<Rightarrow>
                                (case multiServerResult of
                                   [] \<Rightarrow> None
                                 | (k, result) # rest \<Rightarrow> Some (server, result))))))))"

text \<open>
  The loop \<open>for _, server := range servers\<close>, with the pass number, the map
  \<open>batchResults\<close> and the receivers of the calls of \<open>Run\<close> so far as state. The map is an
  association list with one pair for a key.
\<close>

fun batchLoop ::
  "('db, 'ip, 'x) geo_env_scheme \<Rightarrow> ('res, 'v, 'z, 'y) batch_env_scheme \<Rightarrow> 'z Benchmark_scheme
     \<Rightarrow> nat \<Rightarrow> string list \<Rightarrow> (string \<times> 'v) list \<times> 'z Benchmark_scheme list
     \<Rightarrow> (string \<times> 'v) list \<times> 'z Benchmark_scheme list" where
  "batchLoop genv env benchmark pass [] (batchResults, runs) = (batchResults, runs)"
| "batchLoop genv env benchmark pass (server # servers) (batchResults, runs) =
     (case batchPass genv env benchmark pass server of
        (called, assignment) \<Rightarrow>
          batchLoop genv env benchmark (pass + 1) servers
            ((case assignment of
                None \<Rightarrow> batchResults
              | Some (key, result) \<Rightarrow> AList.update key result batchResults),
             runs @ called))"

text \<open>
  \<open>runBatchBenchmark\<close>: the error it returns, or the members of the JSON object it prints
  on standard output, in the order printed.
\<close>

definition runBatchBenchmark ::
  "('db, 'ip, 'x) geo_env_scheme \<Rightarrow> ('res, 'v, 'z, 'y) batch_env_scheme \<Rightarrow> 'z Benchmark_scheme
     \<Rightarrow> string \<Rightarrow> error + (string \<times> 'v) list" where
  "runBatchBenchmark genv env benchmark serverList =
     (let servers = Split serverList '',''
      in if length servers = 0 then Inl ''no servers provided for batch benchmark''
         else Inr (MarshalIndent (fst (batchLoop genv env benchmark 0 servers ([], [])))))"

text \<open>
  The configurations on which \<open>runBatchBenchmark\<close> has called \<open>Run\<close> when it returns, in the
  order of the calls.
\<close>

definition batchRuns ::
  "('db, 'ip, 'x) geo_env_scheme \<Rightarrow> ('res, 'v, 'z, 'y) batch_env_scheme \<Rightarrow> 'z Benchmark_scheme
     \<Rightarrow> string \<Rightarrow> 'z Benchmark_scheme list" where
  "batchRuns genv env benchmark serverList =
     (let servers = Split serverList '',''
      in if length servers = 0 then []
         else snd (batchLoop genv env benchmark 0 servers ([], [])))"

subsection \<open>The exit status of Execute\<close>

definition ioerrorFailCondition :: string where "ioerrorFailCondition = ''ioerror''"
definition negativeFailCondition :: string where "negativeFailCondition = ''negative''"
definition errorFailCondition :: string where "errorFailCondition = ''error''"
definition idmismatchFailCondition :: string where "idmismatchFailCondition = ''idmismatch''"

text \<open>
  The counters of the merged statistics that the fail conditions read; the declaration of
  the type is outside the files at hand, other counters are in the extension of the scheme.
\<close>

record Counters =
  IOError :: int64
  Negative :: int64
  Error :: int64
  IDmismatch :: int64

text \<open>
  The loop over \<open>failConditions\<close>: \<open>Some 1\<close> when a pass calls \<open>os.Exit(1)\<close>, \<open>None\<close>
  when the loop runs to its end.
\<close>

fun failLoop :: "string list \<Rightarrow> 'a Counters_scheme \<Rightarrow> int option" where
  "failLoop [] counters = None"
| "failLoop (f # fs) counters =
     (if f = ioerrorFailCondition
      then (if sint (IOError counters) > 0 then Some 1 else failLoop fs counters)
      else if f = negativeFailCondition
      then (if sint (Negative counters) > 0 then Some 1 else failLoop fs counters)
      else if f = errorFailCondition
      then (if sint (Error counters) > 0 then Some 1 else failLoop fs counters)
      else if f = idmismatchFailCondition
      then (if sint (IDmismatch counters) > 0 then Some 1 else failLoop fs counters)
      else failLoop fs counters)"

text \<open>
  The exit status of the benchmark command for a single server, from the call of
  \<open>benchmark.Run\<close> on: \<open>runErr\<close> and \<open>printErr\<close> are the errors of \<open>Run\<close> and of
  \<open>reporter.PrintReport\<close>. The HTML output between the report and the fail conditions
  only prints its errors. When \<open>Execute\<close> returns, the process ends with status 0. The
  handler of a second interrupt signal runs concurrently and is not part of the model.
\<close>

definition ExecuteExit :: "error option \<Rightarrow> error option \<Rightarrow> string list \<Rightarrow> 'a Counters_scheme \<Rightarrow> int" where
  "ExecuteExit runErr printErr failConditions counters =
     (if runErr \<noteq> None then 1
      else if printErr \<noteq> None then 1
      else if length failConditions > 0
      then (case failLoop failConditions counters of Some status \<Rightarrow> status | None \<Rightarrow> 0)
      else 0)"

section \<open>Vocabulary of the statements and sample inputs\<close>

text \<open>
  The sub-run of pass number \<open>pass\<close> on the server \<open>name\<close> yields the result object
  \<open>result\<close>: \<open>Run\<close>, called on the base configuration with \<open>Server\<close> set to \<open>name\<close> and
  \<open>JSON\<close> and \<open>Silent\<close> on, returns no error; the report, printed into the buffer with
  \<open>Silent\<close> off and the geocode of \<open>name\<close>, has no error; it decodes without error into an
  object with at least one member; and \<open>result\<close> is the member keyed by \<open>name\<close> or, when
  there is none, the member that \<open>range\<close> visits first.
\<close>

definition passYields ::
  "('db, 'ip, 'x) geo_env_scheme \<Rightarrow> ('res, 'v, 'z, 'y) batch_env_scheme \<Rightarrow> 'z Benchmark_scheme
     \<Rightarrow> nat \<Rightarrow> string \<Rightarrow> 'v \<Rightarrow> bool" where
  "passYields genv env benchmark pass name result =
     (\<exists>bench res jsonData members.
        Run env pass (benchmark\<lparr>Benchmark.Server := name, JSON := True, Silent := True\<rparr>) = (bench, Inr res)
        \<and> PrintReport env pass (bench\<lparr>Writer := BytesBuffer, Silent := False\<rparr>) res
              (getServerGeocode genv name) = Inr jsonData
        \<and> Unmarshal env jsonData = Inr members
        \<and> members \<noteq> []
        \<and> result = (case map_of members name of Some r \<Rightarrow> r | None \<Rightarrow> snd (hd members)))"

text \<open>
  A sample environment for the geolocation: the database opens at the last of the four
  paths, \<open>dns.google\<close> resolves to an IPv6 and an IPv4 address, and the database places
  \<open>8.8.8.8\<close> in the US and knows no other address. IP addresses are their text form.
\<close>

definition exampleGeoEnv :: "(unit, string) geo_env" where
  "exampleGeoEnv =
     \<lparr>geoip2_Open = (\<lambda>path. if path = ''./Country.mmdb'' then (Some (), None)
                             else (None, Some ''open: no such file or directory'')),
      net_LookupIP = (\<lambda>host. if host = ''dns.google'' then ([''2001:4860:4860::8888'', ''8.8.8.8''], None)
                              else if host = ''8.8.8.8'' \<or> host = ''192.168.1.1'' then ([host], None)
                              else ([], Some ''lookup: no such host'')),
      Reader_Country = (\<lambda>reader ip. if ip = ''8.8.8.8'' then (''US'', None) else ([], None)),
      IP_To4 = (\<lambda>ip. \<not> Contains ip '':''),
      IP_IsPrivate = (\<lambda>ip. HasPrefix ip ''192.168.''),
      IP_IsUnspecified = (\<lambda>ip. ip = ''0.0.0.0'' \<or> ip = ''::''),
      IP_String = (\<lambda>ip. ip)\<rparr>"

text \<open>
  A sample environment whose database opens at the first path and labels every address with
  the country code \<open>UNKNOWN\<close>; every host resolves to itself.
\<close>

definition mislabelledGeoEnv :: "(unit, string) geo_env" where
  "mislabelledGeoEnv =
     \<lparr>geoip2_Open = (\<lambda>path. (Some (), None)),
      net_LookupIP = (\<lambda>host. ([host], None)),
      Reader_Country = (\<lambda>reader ip. (''UNKNOWN'', None)),
      IP_To4 = (\<lambda>ip. \<not> Contains ip '':''),
      IP_IsPrivate = (\<lambda>ip. HasPrefix ip ''192.168.''),
      IP_IsUnspecified = (\<lambda>ip. ip = ''0.0.0.0'' \<or> ip = ''::''),
      IP_String = (\<lambda>ip. ip)\<rparr>"

text \<open>A sample environment without a GeoIP database: no path opens.\<close>

definition offlineGeoEnv :: "(unit, string) geo_env" where
  "offlineGeoEnv =
     \<lparr>geoip2_Open = (\<lambda>path. (None, Some ''open: no such file or directory'')),
      net_LookupIP = (\<lambda>host. ([host], None)),
      Reader_Country = (\<lambda>reader ip. ([], None)),
      IP_To4 = (\<lambda>ip. \<not> Contains ip '':''),
      IP_IsPrivate = (\<lambda>ip. HasPrefix ip ''192.168.''),
      IP_IsUnspecified = (\<lambda>ip. ip = ''0.0.0.0'' \<or> ip = ''::''),
      IP_String = (\<lambda>ip. ip)\<rparr>"

text \<open>
  A sample environment for the batch driver. The server \<open>192.0.2.1\<close> does not answer:
  its run returns an error. Every other sub-run succeeds: the run's result is the server it
  was given; the report is that name, \<open>=\<close>, the geocode, \<open>:\<close> and one \<open>+\<close> for each earlier
  pass; the decoded object has one member, keyed by the name, whose value is the rest of the
  report.
\<close>

definition exampleBatchEnv :: "(string, string, unit) batch_env" where
  "exampleBatchEnv =
     \<lparr>Run = (\<lambda>pass bench. (bench, if Benchmark.Server bench = ''192.0.2.1'' then Inl ''i/o timeout''
                                   else Inr (Benchmark.Server bench))),
      PrintReport = (\<lambda>pass bench res geocode. Inr (res @ ''='' @ geocode @ '':'' @ replicate pass (CHR ''+''))),
      Unmarshal = (\<lambda>jsonData. Inr [(takeWhile (\<lambda>c. c \<noteq> CHR ''='') jsonData,
                                     tl (dropWhile (\<lambda>c. c \<noteq> CHR ''='') jsonData))])\<rparr>"

text \<open>
  A sample configuration, as the flags of
  \<open>dnspyre --batch-json 8.8.8.8,1.1.1.1,114.114.114.114 -n 100 google.com\<close> leave it. The
  values of the defaults that are declared outside the files at hand (timeouts, plot format,
  HTTP method and protocol, log path) are examples.
\<close>

definition exampleBenchmark :: Benchmark where
  "exampleBenchmark =
     \<lparr>Server = ''127.0.0.1'', Types = [''A''], Count = 100, Concurrency = 1, Rate = 0,
      RateLimitWorker = 0, QperConn = 0, Recurse = True, Probability = 1, EdnsOpt = [],
      DNSSEC = False, Edns0 = 0, TCP = False, DOT = False,
      WriteTimeout = 1000000000, ReadTimeout = 3000000000, ConnectTimeout = 1000000000,
      RequestTimeout = 5000000000, Rcodes = True, HistMin = 400000, HistMax = 0, HistPre = 1,
      HistDisplay = True, Csv = [], JSON = False,
      BatchJSON = ''8.8.8.8,1.1.1.1,114.114.114.114'', HTML = [], Silent = False, Color = True,
      PlotDir = [], PlotFormat = ''svg'', DohMethod = ''post'', DohProtocol = ''1.1'',
      Insecure = False, Duration = 0, ProgressBar = True, RequestLogEnabled = False,
      RequestLogPath = ''requests.log'', SeparateWorkerConnections = False,
      RequestDelay = ''0s'', PrometheusMetricsAddr = [], Queries = [''google.com''],
      Writer = Stdout\<rparr>"

chapter \<open>Properties\<close>

section \<open>CalculateScore\<close>

subsection \<open>Conversions\<close>

lemma float64_of_pos: "0 < sint x \<Longrightarrow> 0 < float64_of x"
  unfolding float64_of_def by (simp only: of_int_0_less_iff)

lemma float64_of_nonneg: "0 \<le> sint x \<Longrightarrow> 0 \<le> float64_of x"
  unfolding float64_of_def by (simp only: of_int_0_le_iff)

lemma float64_of_mono: "sint x \<le> sint y \<Longrightarrow> float64_of x \<le> float64_of y"
  unfolding float64_of_def by (simp only: of_int_le_iff)

lemma float64_of_gt_1000: "(float64_of x > 1000) = (sint x > sint (1000 :: int64))"
proof -
  have "(real_of_int (sint x) > real_of_int 1000) = (sint x > 1000)"
    by (rule of_int_less_iff)
  then show ?thesis by (simp add: float64_of_def)
qed

lemma success_nonzero: "0 < sint (x :: int64) \<Longrightarrow> x \<noteq> 0"
  by auto

subsection \<open>The component scores\<close>

lemma linear_score_clamp:
  fixes m :: real
  assumes "\<not> m < 0.1" "\<not> m > 1000"
  shows "max 0 (min 100 (100 * (1 - (m - 0.1) / (1000 - 0.1)))) = 100 * (1 - (m - 0.1) / (1000 - 0.1))"
proof -
  have "0 \<le> (m - 0.1) / (1000 - 0.1)" using assms by simp
  moreover have "(m - 0.1) / (1000 - 0.1) \<le> 1" using assms by simp
  ultimately show ?thesis by (simp add: max_def min_def)
qed

text \<open>
  The latency score of the code is the specification's formula at the averaged latency that
  the code computes; between the two thresholds the clamp of the linear score changes
  nothing and the guard \<open>meanMs > 0\<close> holds.
\<close>

lemma latencyScore_eq:
  "latencyScore metrics =
     spec_latency (averagedMeanMs (LatencyStats metrics))
        (float64_of (StdMs (LatencyStats metrics)))
        (float64_of (P95Ms (LatencyStats metrics)))"
proof -
  define m where "m = averagedMeanMs (LatencyStats metrics)"
  define s where "s = float64_of (StdMs (LatencyStats metrics))"
  have p: "(float64_of (P95Ms (LatencyStats metrics)) > 1000)
           = (sint (P95Ms (LatencyStats metrics)) > sint (1000 :: int64))"
    by (rule float64_of_gt_1000)
  have core: "(if m < LatencyRangeMin then 95.0
             else if m > LatencyRangeMax then 0
             else
               (let latencyScore = 100 * (1 - (m - LatencyRangeMin) / (LatencyRangeMax - LatencyRangeMin));
                    latencyScore = max 0 (min 100 latencyScore)
                in if m > 0
                   then (let stdPenalty = s / m * 5
                         in max 0 (latencyScore - stdPenalty))
                   else latencyScore))
        = (if m < 0.1 then 95
               else if m > 1000 then 0
               else max 0 (100 * (1 - (m - 0.1) / (1000 - 0.1)) - s / m * 5))"
  proof (cases "m < 0.1 \<or> m > 1000")
    case True
    then show ?thesis by (auto simp: LatencyRangeMin_def LatencyRangeMax_def)
  next
    case False
    then have a: "\<not> m < 0.1" and b: "\<not> m > 1000" by auto
    from a have "m > 0" by simp
    then show ?thesis using a b linear_score_clamp [OF a b]
      by (simp add: LatencyRangeMin_def LatencyRangeMax_def Let_def)
  qed
  show ?thesis
    unfolding latencyScore_def spec_latency_def Let_def p
    using core unfolding m_def s_def Let_def by simp
qed

lemma successRateScore_bounds:
  assumes "0 < sint (TotalSuccessResponses metrics)"
    and "sint (TotalSuccessResponses metrics) \<le> sint (TotalRequests metrics)"
  shows "0 \<le> successRateScore metrics \<and> successRateScore metrics \<le> 100"
proof -
  define s where "s = float64_of (TotalSuccessResponses metrics)"
  define t where "t = float64_of (TotalRequests metrics)"
  have s: "0 < s" using assms(1) unfolding s_def by (rule float64_of_pos)
  have st: "s \<le> t" using assms(2) unfolding s_def t_def by (rule float64_of_mono)
  from s st have t: "0 < t" by simp
  define r where "r = s / t"
  have "0 \<le> r" using s t by (simp add: r_def)
  moreover have "r \<le> 1" using st t by (simp add: r_def)
  ultimately have "0 \<le> r * 100 \<and> r * 100 \<le> 100" by simp
  then show ?thesis
    unfolding successRateScore_def Let_def r_def s_def t_def .
qed

lemma errorRateScore_bounds: "0 \<le> errorRateScore metrics \<and> errorRateScore metrics \<le> 100"
  by (simp add: errorRateScore_def Let_def)

lemma spec_latency_bounds:
  assumes "0 \<le> s"
  shows "0 \<le> spec_latency m s p \<and> spec_latency m s p \<le> 100"
proof -
  define v where "v = (if m < 0.1 then 95
               else if m > 1000 then 0
               else max 0 (100 * (1 - (m - 0.1) / (1000 - 0.1)) - s / m * 5))"
  have v: "0 \<le> v \<and> v \<le> 100"
  proof (cases "m < 0.1 \<or> m > 1000")
    case True
    then show ?thesis by (auto simp: v_def)
  next
    case False
    then have a: "\<not> m < 0.1" and b: "\<not> m > 1000" by auto
    from a have m: "0 < m" by simp
    have "0 \<le> (m - 0.1) / (1000 - 0.1)" using a by simp
    then have l: "100 * (1 - (m - 0.1) / (1000 - 0.1)) \<le> 100" by simp
    have "0 \<le> s / m * 5" using assms m by simp
    with l have "100 * (1 - (m - 0.1) / (1000 - 0.1)) - s / m * 5 \<le> 100" by linarith
    then show ?thesis using a b by (simp add: v_def)
  qed
  have "spec_latency m s p = (if p > 1000 then v * 0.7 else v)"
    by (simp add: spec_latency_def v_def)
  then show ?thesis using v by auto
qed

lemma ln_MaxQPS_pos: "0 < ln (1 + MaxQPS)"
  by (simp add: MaxQPS_def)

lemma qpsScore_bounds:
  assumes "0 \<le> QueriesPerSecond metrics"
  shows "0 \<le> qpsScore metrics \<and> qpsScore metrics \<le> 100"
proof -
  have "0 \<le> ln (1 + QueriesPerSecond metrics)" using assms by simp
  then have "0 \<le> 100 * ln (1 + QueriesPerSecond metrics) / ln (1 + MaxQPS)"
    using ln_MaxQPS_pos by simp
  then show ?thesis by (simp add: qpsScore_def Let_def)
qed

lemma qpsScore_full:
  assumes "100 \<le> QueriesPerSecond metrics"
  shows "qpsScore metrics = 100"
proof -
  have "ln (1 + MaxQPS) \<le> ln (1 + QueriesPerSecond metrics)"
    using assms by (simp add: MaxQPS_def)
  then have "1 \<le> ln (1 + QueriesPerSecond metrics) / ln (1 + MaxQPS)"
    using ln_MaxQPS_pos by (simp add: le_divide_eq)
  then have "100 \<le> 100 * ln (1 + QueriesPerSecond metrics) / ln (1 + MaxQPS)" by simp
  then show ?thesis by (simp add: qpsScore_def Let_def)
qed

lemmas score_eval =
  CalculateScore_def successRateScore_def errorRateScore_def latencyScore_def qpsScore_def
  averagedMeanMs_def int64_quo_def float64_of_def signed_divide_int_def
  MaxQPS_def LatencyRangeMin_def LatencyRangeMax_def
  SuccessRateScoreWeight_def ErrorRateScoreWeight_def LatencyScoreWeight_def QPSScoreWeight_def

subsection \<open>The latency score\<close>

text \<open>
  C1, as amended. For every metrics input with \<open>TotalSuccessResponses > 0\<close>, the Latency
  field of the result is the specification's formula (95 below 0.1; 0 above 1000; else
  \<open>100 \<cdot> (1 - (m - 0.1) / (1000 - 0.1))\<close> less \<open>stdLatMs / m \<cdot> 5\<close>, floored at 0; times 0.7 when
  \<open>p95LatMs > 1000\<close>) at \<open>m\<close> = the \<open>int64\<close> quotient \<open>(MeanMs + P50Ms) / 2\<close>, truncated
  towards zero and then converted to a float. It is not the formula at the exact arithmetic
  mean of the two values.
\<close>

theorem CalculateScore_latency_truncated_mean:
  assumes "0 < sint (TotalSuccessResponses metrics)"
  shows "Latency (CalculateScore metrics) =
     spec_latency (float64_of (int64_quo (MeanMs (LatencyStats metrics) + P50Ms (LatencyStats metrics)) 2))
        (float64_of (StdMs (LatencyStats metrics)))
        (float64_of (P95Ms (LatencyStats metrics)))"
proof -
  from assms have "TotalSuccessResponses metrics \<noteq> 0" by (rule success_nonzero)
  then show ?thesis
    by (simp add: CalculateScore_def latencyScore_eq averagedMeanMs_def)
qed

text \<open>
  The theorem at a run with mean 7 ms, median 4 ms, deviation 3 ms and a 95th percentile of
  1200 ms: the quotient is 5, the linear score \<open>100 \<cdot> (1 - 4.9 / 999.9)\<close>, the penalty
  \<open>3 / 5 \<cdot> 5 = 3\<close>, and the result is scaled by 0.7.
\<close>

theorem CalculateScore_latency_truncated_mean_witness:
  "0 < sint (TotalSuccessResponses
       \<lparr>TotalRequests = 10, TotalSuccessResponses = 10, TotalErrorResponses = 0, TotalIOErrors = 0,
        QueriesPerSecond = 100, LatencyStats = \<lparr>MeanMs = 7, StdMs = 3, P50Ms = 4, P95Ms = 1200\<rparr>\<rparr>)
   \<and> Latency (CalculateScore
       \<lparr>TotalRequests = 10, TotalSuccessResponses = 10, TotalErrorResponses = 0, TotalIOErrors = 0,
        QueriesPerSecond = 100, LatencyStats = \<lparr>MeanMs = 7, StdMs = 3, P50Ms = 4, P95Ms = 1200\<rparr>\<rparr>)
     = (100 * (1 - 4.9 / 999.9) - 3) * 0.7"
  using CalculateScore_latency_truncated_mean
    [of "\<lparr>TotalRequests = 10, TotalSuccessResponses = 10, TotalErrorResponses = 0, TotalIOErrors = 0,
          QueriesPerSecond = 100, LatencyStats = \<lparr>MeanMs = 7, StdMs = 3, P50Ms = 4, P95Ms = 1200\<rparr>\<rparr>"]
  by (simp add: spec_latency_def int64_quo_def float64_of_def signed_divide_int_def)

text \<open>
  C1 as stated fails. With mean 0 ms and median 1 ms the exact mean is 0.5, for which the
  formula gives \<open>100 \<cdot> (1 - 0.4 / 999.9)\<close>; the code averages in \<open>int64\<close>, gets 0, and
  returns 95.
\<close>

theorem CalculateScore_latency_exact_mean_counterexample:
  "0 < sint (TotalSuccessResponses
       \<lparr>TotalRequests = 10, TotalSuccessResponses = 10, TotalErrorResponses = 0, TotalIOErrors = 0,
        QueriesPerSecond = 100, LatencyStats = \<lparr>MeanMs = 0, StdMs = 0, P50Ms = 1, P95Ms = 2\<rparr>\<rparr>)
   \<and> Latency (CalculateScore
       \<lparr>TotalRequests = 10, TotalSuccessResponses = 10, TotalErrorResponses = 0, TotalIOErrors = 0,
        QueriesPerSecond = 100, LatencyStats = \<lparr>MeanMs = 0, StdMs = 0, P50Ms = 1, P95Ms = 2\<rparr>\<rparr>) = 95
   \<and> spec_latency ((float64_of 0 + float64_of 1) / 2) (float64_of 0) (float64_of 2)
       = 100 * (1 - 0.4 / 999.9)
   \<and> Latency (CalculateScore
       \<lparr>TotalRequests = 10, TotalSuccessResponses = 10, TotalErrorResponses = 0, TotalIOErrors = 0,
        QueriesPerSecond = 100, LatencyStats = \<lparr>MeanMs = 0, StdMs = 0, P50Ms = 1, P95Ms = 2\<rparr>\<rparr>)
     \<noteq> spec_latency ((float64_of 0 + float64_of 1) / 2) (float64_of 0) (float64_of 2)"
  by (simp add: score_eval spec_latency_def)

subsection \<open>No successful response\<close>

text \<open>
  C2. When \<open>TotalSuccessResponses\<close> is 0, \<open>CalculateScore\<close> returns the all-zero score
  (Total, SuccessRate, ErrorRate, Latency and QPS are 0), whatever the other fields hold.
\<close>

theorem CalculateScore_no_success:
  assumes "TotalSuccessResponses metrics = 0"
  shows "CalculateScore metrics = \<lparr>Total = 0, SuccessRate = 0, ErrorRate = 0, Latency = 0, QPS = 0\<rparr>"
  using assms by (simp add: CalculateScore_def zeroScore_def)

theorem CalculateScore_no_success_witness:
  "TotalSuccessResponses
     \<lparr>TotalRequests = 10, TotalSuccessResponses = 0, TotalErrorResponses = 4, TotalIOErrors = 6,
      QueriesPerSecond = 250, LatencyStats = \<lparr>MeanMs = 12, StdMs = 3, P50Ms = 11, P95Ms = 40\<rparr>\<rparr> = 0
   \<and> CalculateScore
     \<lparr>TotalRequests = 10, TotalSuccessResponses = 0, TotalErrorResponses = 4, TotalIOErrors = 6,
      QueriesPerSecond = 250, LatencyStats = \<lparr>MeanMs = 12, StdMs = 3, P50Ms = 11, P95Ms = 40\<rparr>\<rparr>
     = \<lparr>Total = 0, SuccessRate = 0, ErrorRate = 0, Latency = 0, QPS = 0\<rparr>"
  using CalculateScore_no_success
    [of "\<lparr>TotalRequests = 10, TotalSuccessResponses = 0, TotalErrorResponses = 4, TotalIOErrors = 6,
          QueriesPerSecond = 250, LatencyStats = \<lparr>MeanMs = 12, StdMs = 3, P50Ms = 11, P95Ms = 40\<rparr>\<rparr>"]
  by simp

subsection \<open>Bounds of the component scores\<close>

text \<open>
  C3. For every metrics input with \<open>0 < TotalSuccessResponses \<le> TotalRequests\<close> (so
  \<open>TotalRequests > 0\<close>), \<open>QueriesPerSecond \<ge> 0\<close> and a non-negative \<open>StdMs\<close>, each of the
  SuccessRate, ErrorRate, Latency and QPS fields of the result lies in \<open>[0, 100]\<close>. Bounds
  on the error counters and on \<open>MeanMs\<close>, \<open>P50Ms\<close> and \<open>P95Ms\<close> are not needed: the error
  score is clamped, and an averaged latency below 0.1 scores 95.
\<close>

theorem CalculateScore_components_bounded:
  assumes "0 < sint (TotalSuccessResponses metrics)"
    and "sint (TotalSuccessResponses metrics) \<le> sint (TotalRequests metrics)"
    and "0 \<le> QueriesPerSecond metrics"
    and "0 \<le> sint (StdMs (LatencyStats metrics))"
  shows "(0 \<le> SuccessRate (CalculateScore metrics) \<and> SuccessRate (CalculateScore metrics) \<le> 100)
       \<and> (0 \<le> ErrorRate (CalculateScore metrics) \<and> ErrorRate (CalculateScore metrics) \<le> 100)
       \<and> (0 \<le> Latency (CalculateScore metrics) \<and> Latency (CalculateScore metrics) \<le> 100)
       \<and> (0 \<le> QPS (CalculateScore metrics) \<and> QPS (CalculateScore metrics) \<le> 100)"
proof -
  from assms(1) have nz: "TotalSuccessResponses metrics \<noteq> 0" by (rule success_nonzero)
  have std: "0 \<le> float64_of (StdMs (LatencyStats metrics))"
    using assms(4) by (rule float64_of_nonneg)
  have "0 \<le> latencyScore metrics \<and> latencyScore metrics \<le> 100"
    unfolding latencyScore_eq by (rule spec_latency_bounds [OF std])
  then show ?thesis
    using nz successRateScore_bounds [OF assms(1,2)] errorRateScore_bounds [of metrics]
      qpsScore_bounds [OF assms(3)]
    by (simp add: CalculateScore_def)
qed

theorem CalculateScore_components_bounded_witness:
  "0 < sint (TotalSuccessResponses
       \<lparr>TotalRequests = 100, TotalSuccessResponses = 90, TotalErrorResponses = 6, TotalIOErrors = 4,
        QueriesPerSecond = 50, LatencyStats = \<lparr>MeanMs = 20, StdMs = 5, P50Ms = 18, P95Ms = 60\<rparr>\<rparr>)
   \<and> sint (TotalSuccessResponses
       \<lparr>TotalRequests = 100, TotalSuccessResponses = 90, TotalErrorResponses = 6, TotalIOErrors = 4,
        QueriesPerSecond = 50, LatencyStats = \<lparr>MeanMs = 20, StdMs = 5, P50Ms = 18, P95Ms = 60\<rparr>\<rparr>)
       \<le> sint (TotalRequests
       \<lparr>TotalRequests = 100, TotalSuccessResponses = 90, TotalErrorResponses = 6, TotalIOErrors = 4,
        QueriesPerSecond = 50, LatencyStats = \<lparr>MeanMs = 20, StdMs = 5, P50Ms = 18, P95Ms = 60\<rparr>\<rparr>)
   \<and> 0 \<le> Latency (CalculateScore
       \<lparr>TotalRequests = 100, TotalSuccessResponses = 90, TotalErrorResponses = 6, TotalIOErrors = 4,
        QueriesPerSecond = 50, LatencyStats = \<lparr>MeanMs = 20, StdMs = 5, P50Ms = 18, P95Ms = 60\<rparr>\<rparr>)
   \<and> Latency (CalculateScore
       \<lparr>TotalRequests = 100, TotalSuccessResponses = 90, TotalErrorResponses = 6, TotalIOErrors = 4,
        QueriesPerSecond = 50, LatencyStats = \<lparr>MeanMs = 20, StdMs = 5, P50Ms = 18, P95Ms = 60\<rparr>\<rparr>) \<le> 100
   \<and> 0 \<le> QPS (CalculateScore
       \<lparr>TotalRequests = 100, TotalSuccessResponses = 90, TotalErrorResponses = 6, TotalIOErrors = 4,
        QueriesPerSecond = 50, LatencyStats = \<lparr>MeanMs = 20, StdMs = 5, P50Ms = 18, P95Ms = 60\<rparr>\<rparr>)
   \<and> QPS (CalculateScore
       \<lparr>TotalRequests = 100, TotalSuccessResponses = 90, TotalErrorResponses = 6, TotalIOErrors = 4,
        QueriesPerSecond = 50, LatencyStats = \<lparr>MeanMs = 20, StdMs = 5, P50Ms = 18, P95Ms = 60\<rparr>\<rparr>) \<le> 100
   \<and> SuccessRate (CalculateScore
       \<lparr>TotalRequests = 100, TotalSuccessResponses = 90, TotalErrorResponses = 6, TotalIOErrors = 4,
        QueriesPerSecond = 50, LatencyStats = \<lparr>MeanMs = 20, StdMs = 5, P50Ms = 18, P95Ms = 60\<rparr>\<rparr>) = 90
   \<and> ErrorRate (CalculateScore
       \<lparr>TotalRequests = 100, TotalSuccessResponses = 90, TotalErrorResponses = 6, TotalIOErrors = 4,
        QueriesPerSecond = 50, LatencyStats = \<lparr>MeanMs = 20, StdMs = 5, P50Ms = 18, P95Ms = 60\<rparr>\<rparr>) = 90"
  using CalculateScore_components_bounded
    [of "\<lparr>TotalRequests = 100, TotalSuccessResponses = 90, TotalErrorResponses = 6, TotalIOErrors = 4,
          QueriesPerSecond = 50, LatencyStats = \<lparr>MeanMs = 20, StdMs = 5, P50Ms = 18, P95Ms = 60\<rparr>\<rparr>"]
  by (simp add: CalculateScore_def successRateScore_def errorRateScore_def float64_of_def)

subsection \<open>The throughput score and the total\<close>

text \<open>
  C4. For every metrics input with \<open>TotalSuccessResponses > 0\<close>, the QPS field of the result
  is the smaller of 100 and \<open>100 \<cdot> ln (1 + QueriesPerSecond) / ln (1 + 100)\<close>, and the Total
  field is \<open>(35 \<cdot> SuccessRate + 10 \<cdot> ErrorRate + 50 \<cdot> Latency + 5 \<cdot> QPS) / 100\<close> of the other
  four fields of the same result.
\<close>

theorem CalculateScore_qps_and_total:
  assumes "0 < sint (TotalSuccessResponses metrics)"
  shows "QPS (CalculateScore metrics) = min 100 (100 * ln (1 + QueriesPerSecond metrics) / ln (1 + 100))
       \<and> Total (CalculateScore metrics) =
           (35 * SuccessRate (CalculateScore metrics) + 10 * ErrorRate (CalculateScore metrics)
            + 50 * Latency (CalculateScore metrics) + 5 * QPS (CalculateScore metrics)) / 100"
proof -
  from assms have "TotalSuccessResponses metrics \<noteq> 0" by (rule success_nonzero)
  then show ?thesis
    by (simp add: CalculateScore_def qpsScore_def MaxQPS_def SuccessRateScoreWeight_def
        ErrorRateScoreWeight_def LatencyScoreWeight_def QPSScoreWeight_def algebra_simps)
qed

text \<open>
  The theorem at a run of 100 requests with 90 successes and throughput 0: the QPS score is
  \<open>100 \<cdot> ln 1 / ln 101 = 0\<close>.
\<close>

theorem CalculateScore_qps_and_total_witness:
  "0 < sint (TotalSuccessResponses
       \<lparr>TotalRequests = 100, TotalSuccessResponses = 90, TotalErrorResponses = 6, TotalIOErrors = 4,
        QueriesPerSecond = 0, LatencyStats = \<lparr>MeanMs = 20, StdMs = 5, P50Ms = 18, P95Ms = 60\<rparr>\<rparr>)
   \<and> QPS (CalculateScore
       \<lparr>TotalRequests = 100, TotalSuccessResponses = 90, TotalErrorResponses = 6, TotalIOErrors = 4,
        QueriesPerSecond = 0, LatencyStats = \<lparr>MeanMs = 20, StdMs = 5, P50Ms = 18, P95Ms = 60\<rparr>\<rparr>) = 0"
  using CalculateScore_qps_and_total
    [of "\<lparr>TotalRequests = 100, TotalSuccessResponses = 90, TotalErrorResponses = 6, TotalIOErrors = 4,
          QueriesPerSecond = 0, LatencyStats = \<lparr>MeanMs = 20, StdMs = 5, P50Ms = 18, P95Ms = 60\<rparr>\<rparr>"]
  by simp

subsection \<open>The upper boundary\<close>

text \<open>
  C5, as amended. For every metrics input with \<open>TotalSuccessResponses = TotalRequests > 0\<close>,
  error and IO-error responses that together are at most a quarter of the requests, an
  averaged latency \<open>float64((MeanMs + P50Ms) / 2)\<close> below 0.1 ms, \<open>P95Ms\<close> at most 1000 and
  \<open>QueriesPerSecond \<ge> 100\<close>, the Total field of the result is at least 95.
\<close>

theorem CalculateScore_total_at_least_95:
  assumes "TotalSuccessResponses metrics = TotalRequests metrics"
    and "0 < sint (TotalRequests metrics)"
    and "4 * sint (TotalErrorResponses metrics + TotalIOErrors metrics) \<le> sint (TotalRequests metrics)"
    and "averagedMeanMs (LatencyStats metrics) < 0.1"
    and "sint (P95Ms (LatencyStats metrics)) \<le> 1000"
    and "100 \<le> QueriesPerSecond metrics"
  shows "95 \<le> Total (CalculateScore metrics)"
proof -
  define t where "t = float64_of (TotalRequests metrics)"
  define e where "e = float64_of (TotalErrorResponses metrics + TotalIOErrors metrics)"
  have t: "0 < t" using assms(2) unfolding t_def by (rule float64_of_pos)
  have nz: "TotalSuccessResponses metrics \<noteq> 0" using assms(1,2) by auto
  have sr: "successRateScore metrics = 100"
    using t by (simp add: successRateScore_def Let_def assms(1) t_def [symmetric])
  have "real_of_int (4 * sint (TotalErrorResponses metrics + TotalIOErrors metrics))
          \<le> real_of_int (sint (TotalRequests metrics))"
    using assms(3) by (simp only: of_int_le_iff)
  then have "4 * e \<le> t"
    unfolding e_def t_def float64_of_def by (simp only: of_int_mult of_int_numeral)
  then have "e / t \<le> 1 / 4" using t by (simp add: divide_le_eq)
  then have "75 \<le> 100 * (1 - e / t)" by simp
  then have er: "75 \<le> errorRateScore metrics"
    by (simp add: errorRateScore_def Let_def e_def [symmetric] t_def [symmetric])
  have lat: "latencyScore metrics = 95"
    using assms(4,5) by (simp add: latencyScore_def Let_def LatencyRangeMin_def)
  have q: "qpsScore metrics = 100" by (rule qpsScore_full [OF assms(6)])
  have "Total (CalculateScore metrics) = 87.5 + errorRateScore metrics / 10"
    using nz by (simp add: CalculateScore_def sr lat q SuccessRateScoreWeight_def
        ErrorRateScoreWeight_def LatencyScoreWeight_def QPSScoreWeight_def)
  with er show ?thesis by simp
qed

theorem CalculateScore_total_at_least_95_witness:
  "TotalSuccessResponses
       \<lparr>TotalRequests = 10, TotalSuccessResponses = 10, TotalErrorResponses = 0, TotalIOErrors = 0,
        QueriesPerSecond = 100, LatencyStats = \<lparr>MeanMs = 0, StdMs = 0, P50Ms = 1, P95Ms = 2\<rparr>\<rparr>
     = TotalRequests
       \<lparr>TotalRequests = 10, TotalSuccessResponses = 10, TotalErrorResponses = 0, TotalIOErrors = 0,
        QueriesPerSecond = 100, LatencyStats = \<lparr>MeanMs = 0, StdMs = 0, P50Ms = 1, P95Ms = 2\<rparr>\<rparr>
   \<and> averagedMeanMs \<lparr>MeanMs = 0, StdMs = 0, P50Ms = 1, P95Ms = 2\<rparr> < 0.1
   \<and> 95 \<le> Total (CalculateScore
       \<lparr>TotalRequests = 10, TotalSuccessResponses = 10, TotalErrorResponses = 0, TotalIOErrors = 0,
        QueriesPerSecond = 100, LatencyStats = \<lparr>MeanMs = 0, StdMs = 0, P50Ms = 1, P95Ms = 2\<rparr>\<rparr>)"
  using CalculateScore_total_at_least_95
    [of "\<lparr>TotalRequests = 10, TotalSuccessResponses = 10, TotalErrorResponses = 0, TotalIOErrors = 0,
          QueriesPerSecond = 100, LatencyStats = \<lparr>MeanMs = 0, StdMs = 0, P50Ms = 1, P95Ms = 2\<rparr>\<rparr>"]
  by (simp add: averagedMeanMs_def int64_quo_def float64_of_def signed_divide_int_def)

text \<open>
  C5 as stated fails. All three inputs have \<open>TotalSuccessResponses = TotalRequests = 10\<close>,
  \<open>MeanMs = 0\<close> and \<open>QueriesPerSecond = 100\<close>. With a 95th percentile of 1001 ms the latency
  score is \<open>95 \<cdot> 0.7\<close> and the total 83.25; with 10 error responses the error score is 0 and
  the total 87.5; with a median of 2000 ms the averaged latency is 1000, the latency score 0
  and the total 50.
\<close>

theorem CalculateScore_total_below_95_counterexample:
  "Total (CalculateScore
       \<lparr>TotalRequests = 10, TotalSuccessResponses = 10, TotalErrorResponses = 0, TotalIOErrors = 0,
        QueriesPerSecond = 100, LatencyStats = \<lparr>MeanMs = 0, StdMs = 0, P50Ms = 0, P95Ms = 1001\<rparr>\<rparr>)
     = 83.25
   \<and> Total (CalculateScore
       \<lparr>TotalRequests = 10, TotalSuccessResponses = 10, TotalErrorResponses = 10, TotalIOErrors = 0,
        QueriesPerSecond = 100, LatencyStats = \<lparr>MeanMs = 0, StdMs = 0, P50Ms = 0, P95Ms = 0\<rparr>\<rparr>)
     = 87.5
   \<and> Total (CalculateScore
       \<lparr>TotalRequests = 10, TotalSuccessResponses = 10, TotalErrorResponses = 0, TotalIOErrors = 0,
        QueriesPerSecond = 100, LatencyStats = \<lparr>MeanMs = 0, StdMs = 0, P50Ms = 2000, P95Ms = 0\<rparr>\<rparr>)
     = 50"
  by (simp add: score_eval)

section \<open>RankServers\<close>

subsection \<open>The comparison\<close>

lemma float64_less_imp_le: "float64_less x y \<Longrightarrow> float64_le x y"
  by (simp add: float64_le_def)

lemma float64_not_less_imp_le:
  "x \<noteq> NaN \<Longrightarrow> y \<noteq> NaN \<Longrightarrow> \<not> float64_less x y \<Longrightarrow> float64_le y x"
  by (cases x; cases y) (auto simp: float64_le_def)

lemma float64_le_less_trans: "float64_le x y \<Longrightarrow> float64_less y z \<Longrightarrow> float64_le x z"
  by (cases x; cases y; cases z) (auto simp: float64_le_def)

lemma float64_le_NaN: "\<not> float64_le x NaN" "\<not> float64_le NaN y"
  by (cases x; simp add: float64_le_def) (simp add: float64_le_def)

subsection \<open>The inner loop\<close>

lemma sort_inner_length: "length (sort_inner i j rs) = length rs"
proof (induction i j rs rule: sort_inner.induct)
  case (1 i j rs)
  show ?case
  proof (cases "j < length rs")
    case True
    then show ?thesis using "1.IH" [OF True] by (subst sort_inner.simps) simp
  next
    case False
    then show ?thesis by (subst sort_inner.simps) simp
  qed
qed

lemma sort_inner_mset: "i < j \<Longrightarrow> mset (sort_inner i j rs) = mset rs"
proof (induction i j rs rule: sort_inner.induct)
  case (1 i j rs)
  show ?case
  proof (cases "j < length rs")
    case True
    with "1.prems" have i: "i < length rs" by simp
    have sw: "mset (rs[i := rs ! j, j := rs ! i]) = mset rs"
      using mset_swap [OF True i] .
    have "i < j + 1" using "1.prems" by simp
    from "1.IH" [OF True this] sw True show ?thesis
      by (subst sort_inner.simps) simp
  next
    case False
    then show ?thesis by (subst sort_inner.simps) simp
  qed
qed

lemma sort_inner_take: "i < j \<Longrightarrow> take i (sort_inner i j rs) = take i rs"
proof (induction i j rs rule: sort_inner.induct)
  case (1 i j rs)
  show ?case
  proof (cases "j < length rs")
    case True
    have "i < j + 1" using "1.prems" by simp
    from "1.IH" [OF True this] "1.prems" True show ?thesis
      by (subst sort_inner.simps) simp
  next
    case False
    then show ?thesis by (subst sort_inner.simps) simp
  qed
qed

lemma sort_inner_drop_mset:
  assumes "i < j"
  shows "mset (drop i (sort_inner i j rs)) = mset (drop i rs)"
proof -
  have "mset (take i (sort_inner i j rs)) + mset (drop i (sort_inner i j rs)) = mset (sort_inner i j rs)"
    by (simp only: mset_append [symmetric] append_take_drop_id)
  also have "\<dots> = mset rs" by (rule sort_inner_mset [OF assms])
  also have "\<dots> = mset (take i rs) + mset (drop i rs)"
    by (simp only: mset_append [symmetric] append_take_drop_id)
  finally show ?thesis by (simp add: sort_inner_take [OF assms])
qed

lemma sort_inner_set: "i < j \<Longrightarrow> set (sort_inner i j rs) = set rs"
  using sort_inner_mset [of i j rs] by (metis mset_eq_setD)

text \<open>
  When no total is NaN and the entries between \<open>i\<close> and \<open>j\<close> do not exceed the entry at
  \<open>i\<close>, the inner loop leaves at \<open>i\<close> an entry that no later one exceeds.
\<close>

lemma sort_inner_max:
  "i < j \<Longrightarrow>
   \<forall>r \<in> set rs. Total (Score r) \<noteq> NaN \<Longrightarrow>
   \<forall>k. i < k \<and> k < j \<and> k < length rs \<longrightarrow> float64_le (Total (Score (rs ! k))) (Total (Score (rs ! i))) \<Longrightarrow>
   \<forall>k. i < k \<and> k < length rs \<longrightarrow>
       float64_le (Total (Score (sort_inner i j rs ! k))) (Total (Score (sort_inner i j rs ! i)))"
proof (induction i j rs rule: sort_inner.induct)
  case (1 i j rs)
  show ?case
  proof (cases "j < length rs")
    case True
    with "1.prems" have i: "i < length rs" by simp
    define rs' where "rs' = (if float64_less (Total (Score (rs ! i))) (Total (Score (rs ! j)))
              then rs[i := rs ! j, j := rs ! i] else rs)"
    have len: "length rs' = length rs" by (simp add: rs'_def)
    have "mset rs' = mset rs" using mset_swap [OF True i] by (simp add: rs'_def)
    then have "set rs' = set rs" by (rule mset_eq_setD)
    with "1.prems"(2) have nan': "\<forall>r \<in> set rs'. Total (Score r) \<noteq> NaN" by simp
    have ni: "Total (Score (rs ! i)) \<noteq> NaN" and nj: "Total (Score (rs ! j)) \<noteq> NaN"
      using "1.prems"(2) i True by simp_all
    have inv: "\<forall>k. i < k \<and> k < j + 1 \<and> k < length rs' \<longrightarrow>
                 float64_le (Total (Score (rs' ! k))) (Total (Score (rs' ! i)))"
    proof (intro allI impI)
      fix k assume k: "i < k \<and> k < j + 1 \<and> k < length rs'"
      show "float64_le (Total (Score (rs' ! k))) (Total (Score (rs' ! i)))"
      proof (cases "float64_less (Total (Score (rs ! i))) (Total (Score (rs ! j)))")
        case sw: True
        then have r: "rs' = rs[i := rs ! j, j := rs ! i]" by (simp add: rs'_def)
        have ri: "rs' ! i = rs ! j" using i True "1.prems"(1) by (simp add: r)
        show ?thesis
        proof (cases "k = j")
          case True
          then have "rs' ! k = rs ! i" using \<open>j < length rs\<close> by (simp add: r)
          then show ?thesis using float64_less_imp_le [OF sw] ri by simp
        next
          case False
          with k have kj: "k < j" by simp
          then have rk: "rs' ! k = rs ! k" using k by (simp add: r)
          have "float64_le (Total (Score (rs ! k))) (Total (Score (rs ! i)))"
            using "1.prems"(3) k kj len by simp
          from float64_le_less_trans [OF this sw] show ?thesis by (simp add: rk ri)
        qed
      next
        case nsw: False
        then have r: "rs' = rs" by (simp add: rs'_def)
        show ?thesis
        proof (cases "k = j")
          case True
          then show ?thesis using float64_not_less_imp_le [OF ni nj nsw] by (simp add: r)
        next
          case False
          with k have kj: "k < j" by simp
          then show ?thesis using "1.prems"(3) k len by (simp add: r)
        qed
      qed
    qed
    have "i < j + 1" using "1.prems" by simp
    from "1.IH" [OF True this] nan' inv
    have "\<forall>k. i < k \<and> k < length rs' \<longrightarrow>
       float64_le (Total (Score (sort_inner i (j + 1) rs' ! k))) (Total (Score (sort_inner i (j + 1) rs' ! i)))"
      unfolding rs'_def by blast
    moreover have "sort_inner i j rs = sort_inner i (j + 1) rs'"
      using True by (subst sort_inner.simps) (simp add: rs'_def)
    ultimately show ?thesis by (simp add: len)
  next
    case False
    have "sort_inner i j rs = rs" using False by (subst sort_inner.simps) simp
    then show ?thesis using "1.prems" False by simp
  qed
qed

subsection \<open>The outer loop\<close>

lemma sort_outer_mset: "mset (sort_outer i rs) = mset rs"
proof (induction i rs rule: sort_outer.induct)
  case (1 i rs)
  show ?case
  proof (cases "i < length rs")
    case True
    from "1.IH" [OF True] show ?thesis
      using True by (subst sort_outer.simps) (simp add: sort_inner_mset)
  next
    case False
    then show ?thesis by (subst sort_outer.simps) simp
  qed
qed

text \<open>
  The invariant of the outer loop, when no total is NaN: the first \<open>i\<close> entries are in
  order and none of them is below an entry from \<open>i\<close> on.
\<close>

lemma sort_outer_sorted:
  "\<forall>r \<in> set rs. Total (Score r) \<noteq> NaN \<Longrightarrow>
   sorted_wrt by_total_desc (take i rs) \<Longrightarrow>
   \<forall>x \<in> set (take i rs). \<forall>y \<in> set (drop i rs). by_total_desc x y \<Longrightarrow>
   sorted_wrt by_total_desc (sort_outer i rs)"
proof (induction i rs rule: sort_outer.induct)
  case (1 i rs)
  show ?case
  proof (cases "i < length rs")
    case True
    define rs' where "rs' = sort_inner i (i + 1) rs"
    have ii: "i < i + 1" by simp
    have len: "length rs' = length rs" by (simp add: rs'_def sort_inner_length)
    have nan': "\<forall>r \<in> set rs'. Total (Score r) \<noteq> NaN"
      using "1.prems"(1) sort_inner_set [OF ii, of rs] by (simp add: rs'_def)
    have tk: "take i rs' = take i rs" unfolding rs'_def by (rule sort_inner_take [OF ii])
    have dr: "set (drop i rs') = set (drop i rs)"
      using sort_inner_drop_mset [OF ii, of rs] unfolding rs'_def by (rule mset_eq_setD)
    have mx: "\<forall>k. i < k \<and> k < length rs \<longrightarrow>
                float64_le (Total (Score (rs' ! k))) (Total (Score (rs' ! i)))"
      unfolding rs'_def by (rule sort_inner_max [OF ii "1.prems"(1)]) auto
    have i': "i < length rs'" using True len by simp
    have tk1: "take (i + 1) rs' = take i rs @ [rs' ! i]"
      using i' tk by (simp add: take_Suc_conv_app_nth)
    have dr1: "drop i rs' = rs' ! i # drop (i + 1) rs'"
      using i' by (simp add: Cons_nth_drop_Suc)
    have pivot_in: "rs' ! i \<in> set (drop i rs)" using dr dr1 by (metis list.set_intros(1))
    have rest_in: "set (drop (i + 1) rs') \<subseteq> set (drop i rs)" using dr dr1 by (metis set_subset_Cons)
    have s1: "sorted_wrt by_total_desc (take (i + 1) rs')"
      unfolding tk1 using "1.prems"(2,3) pivot_in by (simp add: sorted_wrt_append)
    have s2: "\<forall>x \<in> set (take (i + 1) rs'). \<forall>y \<in> set (drop (i + 1) rs'). by_total_desc x y"
    proof (intro ballI)
      fix x y assume x: "x \<in> set (take (i + 1) rs')" and y: "y \<in> set (drop (i + 1) rs')"
      from y obtain k where k: "k < length (drop (i + 1) rs')" "y = drop (i + 1) rs' ! k"
        by (auto simp: in_set_conv_nth)
      then have yk: "y = rs' ! (i + 1 + k)" and kk: "i + 1 + k < length rs" using len by auto
      from x have "x \<in> set (take i rs @ [rs' ! i])" unfolding tk1 .
      then have "x \<in> set (take i rs) \<or> x = rs' ! i" by auto
      then show "by_total_desc x y"
      proof
        assume "x \<in> set (take i rs)"
        then show ?thesis using "1.prems"(3) rest_in y by blast
      next
        assume "x = rs' ! i"
        then show ?thesis using mx yk kk by (simp add: by_total_desc_def)
      qed
    qed
    have "sorted_wrt by_total_desc (sort_outer (i + 1) rs')"
      using "1.IH" [OF True] nan' s1 s2 unfolding rs'_def by blast
    then show ?thesis using True by (subst sort_outer.simps) (simp add: rs'_def)
  next
    case False
    then have "sort_outer i rs = rs" by (subst sort_outer.simps) simp
    moreover have "take i rs = rs" using False by simp
    ultimately show ?thesis using "1.prems"(2) by simp
  qed
qed

subsection \<open>The ranking\<close>

text \<open>
  C10, as amended. For every finite map from server strings to score results, whatever the
  order \<open>entries\<close> in which the \<open>range\<close> statement visits its entries, \<open>RankServers\<close>
  returns a list that is a permutation of the map's entries; and when no Total of the map is
  NaN, the list is sorted in non-increasing order of the Total field.
\<close>

theorem RankServers_permutation_sorted_without_NaN:
  assumes "set entries = Map.graph servers" and "distinct (map fst entries)"
  shows "mset (map (\<lambda>r. (ServerRank.Server r, Score r)) (RankServers entries)) = mset_set (Map.graph servers)
       \<and> ((\<forall>score \<in> ran servers. Total score \<noteq> NaN) \<longrightarrow>
            sorted_wrt (\<lambda>a b. float64_le (Total (Score b)) (Total (Score a))) (RankServers entries))"
proof -
  define rankings where
    "rankings = map (\<lambda>(server, score). \<lparr>ServerRank.Server = server, Score = score\<rparr>) entries"
  have r: "RankServers entries = sort_outer 0 rankings"
    by (simp add: RankServers_def rankings_def)
  have "distinct entries" using assms(2) by (simp add: distinct_map)
  then have e: "mset entries = mset_set (Map.graph servers)"
    using assms(1) by (metis mset_set_set)
  have "mset (map (\<lambda>r. (ServerRank.Server r, Score r)) (sort_outer 0 rankings))
          = image_mset (\<lambda>r. (ServerRank.Server r, Score r)) (mset rankings)"
    by (simp add: sort_outer_mset)
  also have "\<dots> = mset (map (\<lambda>r. (ServerRank.Server r, Score r)) rankings)" by simp
  also have "map (\<lambda>r. (ServerRank.Server r, Score r)) rankings = entries"
    by (simp add: rankings_def case_prod_unfold comp_def)
  finally have p: "mset (map (\<lambda>r. (ServerRank.Server r, Score r)) (RankServers entries))
                     = mset_set (Map.graph servers)"
    using e r by simp
  have s: "sorted_wrt (\<lambda>a b. float64_le (Total (Score b)) (Total (Score a))) (RankServers entries)"
    if nan: "\<forall>score \<in> ran servers. Total score \<noteq> NaN"
  proof -
    have "\<forall>r \<in> set rankings. Total (Score r) \<noteq> NaN"
    proof
      fix x assume "x \<in> set rankings"
      then obtain server score where x: "x = \<lparr>ServerRank.Server = server, Score = score\<rparr>"
        and m: "(server, score) \<in> set entries"
        by (auto simp: rankings_def)
      from m assms(1) have "servers server = Some score" by (simp add: in_graphD)
      then have "score \<in> ran servers" by (rule ranI)
      with nan show "Total (Score x) \<noteq> NaN" by (simp add: x)
    qed
    then have "sorted_wrt by_total_desc (sort_outer 0 rankings)"
      by (rule sort_outer_sorted) simp_all
    then show ?thesis unfolding r by_total_desc_def .
  qed
  from p s show ?thesis by blast
qed

text \<open>
  The theorem at the map \<open>a \<mapsto> 1, b \<mapsto> +Inf, c \<mapsto> 2\<close> (the totals), visited in the order
  \<open>c, a, b\<close>: the ranking is \<open>b, c, a\<close>.
\<close>

theorem RankServers_permutation_sorted_without_NaN_witness:
  "map ServerRank.Server (RankServers
       [(''c'', \<lparr>Total = Finite 2, SuccessRate = Finite 0, ErrorRate = Finite 0, Latency = Finite 0, QPS = Finite 0\<rparr>),
        (''a'', \<lparr>Total = Finite 1, SuccessRate = Finite 0, ErrorRate = Finite 0, Latency = Finite 0, QPS = Finite 0\<rparr>),
        (''b'', \<lparr>Total = PosInf, SuccessRate = PosInf, ErrorRate = Finite 0, Latency = Finite 0, QPS = Finite 0\<rparr>)])
     = [''b'', ''c'', ''a'']
   \<and> sorted_wrt (\<lambda>a b. float64_le (Total (Score b)) (Total (Score a))) (RankServers
       [(''c'', \<lparr>Total = Finite 2, SuccessRate = Finite 0, ErrorRate = Finite 0, Latency = Finite 0, QPS = Finite 0\<rparr>),
        (''a'', \<lparr>Total = Finite 1, SuccessRate = Finite 0, ErrorRate = Finite 0, Latency = Finite 0, QPS = Finite 0\<rparr>),
        (''b'', \<lparr>Total = PosInf, SuccessRate = PosInf, ErrorRate = Finite 0, Latency = Finite 0, QPS = Finite 0\<rparr>)])"
proof -
  let ?sa = "\<lparr>Total = Finite 1, SuccessRate = Finite 0, ErrorRate = Finite 0, Latency = Finite 0, QPS = Finite 0\<rparr>"
  let ?sb = "\<lparr>Total = PosInf, SuccessRate = PosInf, ErrorRate = Finite 0, Latency = Finite 0, QPS = Finite 0\<rparr>"
  let ?sc = "\<lparr>Total = Finite 2, SuccessRate = Finite 0, ErrorRate = Finite 0, Latency = Finite 0, QPS = Finite 0\<rparr>"
  let ?m = "[''a'' \<mapsto> ?sa, ''b'' \<mapsto> ?sb, ''c'' \<mapsto> ?sc]"
  have g: "set [(''c'', ?sc), (''a'', ?sa), (''b'', ?sb)] = Map.graph ?m"
    by (auto simp: Map.graph_def split: if_splits)
  have d: "distinct (map fst [(''c'', ?sc), (''a'', ?sa), (''b'', ?sb)])" by simp
  have n: "\<forall>score \<in> ran ?m. Total score \<noteq> NaN"
    by (auto simp: ran_def split: if_splits)
  have ev: "map ServerRank.Server (RankServers [(''c'', ?sc), (''a'', ?sa), (''b'', ?sb)]) = [''b'', ''c'', ''a'']"
    by (simp add: RankServers_def sort_outer.simps sort_inner.simps)
  from RankServers_permutation_sorted_without_NaN [OF g d] n ev show ?thesis by blast
qed

text \<open>
  C10 as stated fails. With the totals \<open>a \<mapsto> NaN, b \<mapsto> 1, c \<mapsto> 2\<close>, visited in this order,
  no comparison with the NaN entry is true, so it stays first; the ranking is \<open>a, c, b\<close>
  with the totals \<open>NaN, 2, 1\<close>, and \<open>2 \<le> NaN\<close> does not hold.
\<close>

theorem RankServers_NaN_unsorted_counterexample:
  "set [(''a'', \<lparr>Total = NaN, SuccessRate = PosInf, ErrorRate = NaN, Latency = Finite 95, QPS = Finite 100\<rparr>),
        (''b'', \<lparr>Total = Finite 1, SuccessRate = Finite 0, ErrorRate = Finite 0, Latency = Finite 0, QPS = Finite 20\<rparr>),
        (''c'', \<lparr>Total = Finite 2, SuccessRate = Finite 0, ErrorRate = Finite 0, Latency = Finite 0, QPS = Finite 40\<rparr>)]
     = Map.graph
       [''a'' \<mapsto> \<lparr>Total = NaN, SuccessRate = PosInf, ErrorRate = NaN, Latency = Finite 95, QPS = Finite 100\<rparr>,
        ''b'' \<mapsto> \<lparr>Total = Finite 1, SuccessRate = Finite 0, ErrorRate = Finite 0, Latency = Finite 0, QPS = Finite 20\<rparr>,
        ''c'' \<mapsto> \<lparr>Total = Finite 2, SuccessRate = Finite 0, ErrorRate = Finite 0, Latency = Finite 0, QPS = Finite 40\<rparr>]
   \<and> map (\<lambda>r. (ServerRank.Server r, Total (Score r))) (RankServers
       [(''a'', \<lparr>Total = NaN, SuccessRate = PosInf, ErrorRate = NaN, Latency = Finite 95, QPS = Finite 100\<rparr>),
        (''b'', \<lparr>Total = Finite 1, SuccessRate = Finite 0, ErrorRate = Finite 0, Latency = Finite 0, QPS = Finite 20\<rparr>),
        (''c'', \<lparr>Total = Finite 2, SuccessRate = Finite 0, ErrorRate = Finite 0, Latency = Finite 0, QPS = Finite 40\<rparr>)])
     = [(''a'', NaN), (''c'', Finite 2), (''b'', Finite 1)]
   \<and> \<not> sorted_wrt (\<lambda>a b. float64_le (Total (Score b)) (Total (Score a))) (RankServers
       [(''a'', \<lparr>Total = NaN, SuccessRate = PosInf, ErrorRate = NaN, Latency = Finite 95, QPS = Finite 100\<rparr>),
        (''b'', \<lparr>Total = Finite 1, SuccessRate = Finite 0, ErrorRate = Finite 0, Latency = Finite 0, QPS = Finite 20\<rparr>),
        (''c'', \<lparr>Total = Finite 2, SuccessRate = Finite 0, ErrorRate = Finite 0, Latency = Finite 0, QPS = Finite 40\<rparr>)])"
proof -
  let ?sa = "\<lparr>Total = NaN, SuccessRate = PosInf, ErrorRate = NaN, Latency = Finite 95, QPS = Finite 100\<rparr>"
  let ?sb = "\<lparr>Total = Finite 1, SuccessRate = Finite 0, ErrorRate = Finite 0, Latency = Finite 0, QPS = Finite 20\<rparr>"
  let ?sc = "\<lparr>Total = Finite 2, SuccessRate = Finite 0, ErrorRate = Finite 0, Latency = Finite 0, QPS = Finite 40\<rparr>"
  have g: "set [(''a'', ?sa), (''b'', ?sb), (''c'', ?sc)] = Map.graph [''a'' \<mapsto> ?sa, ''b'' \<mapsto> ?sb, ''c'' \<mapsto> ?sc]"
    by (auto simp: Map.graph_def split: if_splits)
  have ev: "RankServers [(''a'', ?sa), (''b'', ?sb), (''c'', ?sc)]
      = [\<lparr>ServerRank.Server = ''a'', Score = ?sa\<rparr>, \<lparr>ServerRank.Server = ''c'', Score = ?sc\<rparr>,
         \<lparr>ServerRank.Server = ''b'', Score = ?sb\<rparr>]"
    by (simp add: RankServers_def sort_outer.simps sort_inner.simps)
  show ?thesis unfolding ev using g by (simp add: float64_le_def)
qed

section \<open>getServerGeocode\<close>

lemmas TrimSpace_eval =
  TrimSpace_def TrimLeftSpace.simps TrimRightSpace.simps spaceRunes_def HasPrefix_def HasSuffix_def

subsection \<open>Where the database and the address come from\<close>

lemma openFirst_opened:
  assumes "openFirst env paths (reader0, err0) = (Some reader, None)"
  shows "(reader0, err0) = (Some reader, None)
       \<or> (\<exists>path \<in> set paths. geoip2_Open env path = (Some reader, None))"
  using assms
proof (induction paths arbitrary: reader0 err0)
  case Nil
  then show ?case by simp
next
  case (Cons path paths)
  obtain reader' err' where o: "geoip2_Open env path = (reader', err')"
    by (cases "geoip2_Open env path")
  show ?case
  proof (cases "err' = None")
    case True
    with Cons.prems o show ?thesis by auto
  next
    case False
    with Cons.prems o have "openFirst env paths (reader', err') = (Some reader, None)" by simp
    from Cons.IH [OF this] False show ?thesis by auto
  qed
qed

lemma NewGeoService_opened:
  assumes "NewGeoService env = (Some g, None)" and "db g = Some reader"
  shows "\<exists>path \<in> set dbPaths. geoip2_Open env path = (Some reader, None)"
proof -
  obtain reader' err' where o: "openFirst env dbPaths (None, None) = (reader', err')"
    by (cases "openFirst env dbPaths (None, None)")
  with assms have "err' = None" and "reader' = Some reader"
    by (auto simp: NewGeoService_def split: if_splits)
  with o have "openFirst env dbPaths (None, None) = (Some reader, None)" by simp
  from openFirst_opened [OF this] show ?thesis by simp
qed

lemma resolveIP_resolved:
  assumes "resolveIP env server preferIPv4 = Inr ip"
  shows "\<exists>host. ip \<in> set (fst (net_LookupIP env host)) \<and> snd (net_LookupIP env host) = None"
proof (cases "Contains server ''://''")
  case True
  obtain ips err where l: "net_LookupIP env (urlHost server) = (ips, err)"
    by (cases "net_LookupIP env (urlHost server)")
  with assms True have e: "err = None" and n: "ips \<noteq> []"
    by (auto simp: resolveIP_def split: if_splits)
  from assms True l e n have "ip = ips ! 0 \<or> find (IP_To4 env) ips = Some ip"
    by (auto simp: resolveIP_def split: if_splits option.splits)
  then have "ip \<in> set ips"
  proof
    assume "ip = ips ! 0"
    with n show ?thesis by simp
  next
    assume "find (IP_To4 env) ips = Some ip"
    then show ?thesis by (auto simp: find_Some_iff)
  qed
  with l e show ?thesis by (intro exI [of _ "urlHost server"]) simp
next
  case False
  obtain ips err where l: "net_LookupIP env (plainHost server) = (ips, err)"
    by (cases "net_LookupIP env (plainHost server)")
  with assms False have e: "err = None" and n: "ips \<noteq> []" and i: "ip = ips ! 0"
    by (auto simp: resolveIP_def split: if_splits)
  from n i have "ip \<in> set ips" by simp
  with l e show ?thesis by (intro exI [of _ "plainHost server"]) simp
qed

subsection \<open>The geocodes that come without an error\<close>

lemma checkIPGeo_ok:
  assumes "checkIPGeo env g ip = (geoCode, None)"
  shows "geoCode = ''CDN''
       \<or> (\<exists>reader. db g = Some reader \<and> Reader_Country env reader ip = (geoCode, None) \<and> geoCode \<noteq> [])"
  using assms
  by (auto simp: checkIPGeo_def split: option.splits prod.splits if_splits)

lemma CheckGeo_ok:
  assumes "CheckGeo env g server preferIPv4 = (ipString, geoCode, None)"
  shows "geoCode = ''PRIVATE'' \<or> geoCode = ''CDN''
       \<or> (\<exists>reader host ip. db g = Some reader
             \<and> ip \<in> set (fst (net_LookupIP env host)) \<and> snd (net_LookupIP env host) = None
             \<and> Reader_Country env reader ip = (geoCode, None) \<and> geoCode \<noteq> [])"
proof -
  define host where "host = TrimSuffix (TrimSpace server) ''/''"
  have d: "db g \<noteq> None"
  proof
    assume "db g = None"
    with assms show False by (simp add: CheckGeo_def)
  qed
  have h: "host \<noteq> []"
  proof
    assume "host = []"
    with assms d show False by (simp add: CheckGeo_def Let_def host_def)
  qed
  show ?thesis
  proof (cases "resolveIP env host preferIPv4")
    case (Inl msg)
    with assms d h show ?thesis by (simp add: CheckGeo_def Let_def host_def)
  next
    case (Inr ip)
    show ?thesis
    proof (cases "IP_IsPrivate env ip \<or> IP_IsUnspecified env ip")
      case True
      with assms d h Inr have "geoCode = ''PRIVATE''"
        by (auto simp: CheckGeo_def Let_def host_def)
      then show ?thesis by simp
    next
      case False
      with assms d h Inr have "checkIPGeo env g ip = (geoCode, None)"
        by (auto simp: CheckGeo_def Let_def host_def split: prod.splits)
      from checkIPGeo_ok [OF this] resolveIP_resolved [OF Inr] show ?thesis by blast
    qed
  qed
qed

lemma not_isAlpha2_UNKNOWN: "\<not> isAlpha2 ''UNKNOWN''"
  by (simp add: isAlpha2_def)

subsection \<open>The returned strings\<close>


text \<open>
  The theorem at the sample environment and the server \<open>https://dns.google:443/dns-query\<close>:
  the host is \<open>dns.google\<close>, the IPv4 address \<open>8.8.8.8\<close> is preferred, and the code is
  \<open>US\<close>.
\<close>

lemma example_urlHost: "urlHost ''https://dns.google:443/dns-query'' = ''dns.google''"
  by (simp add: urlHost_def TrimPrefix_def HasPrefix_def Contains_def Let_def numeral_2_eq_2)

lemma example_NewGeoService: "NewGeoService exampleGeoEnv = (Some \<lparr>db = Some ()\<rparr>, None)"
  by (simp add: NewGeoService_def dbPaths_def exampleGeoEnv_def)

lemma example_trim: "TrimSuffix (TrimSpace ''https://dns.google:443/dns-query'') ''/'' = ''https://dns.google:443/dns-query''"
  by (simp add: TrimSpace_eval TrimSuffix_def)

lemma example_resolveIP: "resolveIP exampleGeoEnv ''https://dns.google:443/dns-query'' True = Inr ''8.8.8.8''"
  by (simp add: resolveIP_def example_urlHost Contains_def HasPrefix_def exampleGeoEnv_def)

lemma example_geocode: "getServerGeocode exampleGeoEnv ''https://dns.google:443/dns-query'' = ''US''"
proof -
  have "CheckGeo exampleGeoEnv \<lparr>db = Some ()\<rparr> ''https://dns.google:443/dns-query'' True = (''8.8.8.8'', ''US'', None)"
    unfolding CheckGeo_def example_trim Let_def example_resolveIP
    by (simp add: checkIPGeo_def exampleGeoEnv_def HasPrefix_def)
  then show ?thesis by (simp add: getServerGeocode_def example_NewGeoService)
qed

lemma isAlpha2_US: "isAlpha2 ''US''"
  by (simp add: isAlpha2_def)

lemma example_country_codes: "\<forall>reader ip isoCode. Reader_Country exampleGeoEnv reader ip = (isoCode, None) \<longrightarrow> isoCode = [] \<or> isAlpha2 isoCode"
proof (intro allI impI)
  fix reader ip isoCode
  assume "Reader_Country exampleGeoEnv reader ip = (isoCode, None)"
  then have "isoCode = ''US'' \<or> isoCode = []"
    by (simp add: exampleGeoEnv_def split: if_splits)
  then show "isoCode = [] \<or> isAlpha2 isoCode" using isAlpha2_US by blast
qed


lemma mislabelled_CheckGeo:
  "CheckGeo mislabelledGeoEnv \<lparr>db = Some ()\<rparr> ''8.8.8.8'' True = (''8.8.8.8'', ''UNKNOWN'', None)"
proof -
  have t: "TrimSuffix (TrimSpace ''8.8.8.8'') ''/'' = ''8.8.8.8''"
    by (simp add: TrimSpace_eval TrimSuffix_def)
  have p: "plainHost ''8.8.8.8'' = ''8.8.8.8''"
    by (simp add: plainHost_def HasPrefix_def numeral_2_eq_2)
  have r: "resolveIP mislabelledGeoEnv ''8.8.8.8'' True = Inr ''8.8.8.8''"
    by (simp add: resolveIP_def p Contains_def HasPrefix_def mislabelledGeoEnv_def)
  show ?thesis
    unfolding CheckGeo_def t Let_def r
    by (simp add: checkIPGeo_def mislabelledGeoEnv_def HasPrefix_def)
qed


section \<open>runBatchBenchmark\<close>

subsection \<open>Splitting the list and the passes of the loop\<close>

lemma Split_not_Nil: "sep \<noteq> [] \<Longrightarrow> Split s sep \<noteq> []"
  by (subst Split.simps) (simp split: option.splits)

lemma batchPass_runs:
  "fst (batchPass genv env benchmark pass server0) =
     (if TrimSpace server0 = [] then [] else [serverBenchmark benchmark (TrimSpace server0)])"
  by (simp add: batchPass_def Let_def)

lemma batchPass_yields:
  "snd (batchPass genv env benchmark pass server0) = Some (key, result)
     \<longleftrightarrow> key = TrimSpace server0 \<and> key \<noteq> [] \<and> passYields genv env benchmark pass key result"
proof (cases "TrimSpace server0 = []")
  case True
  then show ?thesis by (auto simp: batchPass_def Let_def)
next
  case ne: False
  obtain bench outcome where run: "Run env pass (benchmark\<lparr>Benchmark.Server := (TrimSpace server0), JSON := True, Silent := True\<rparr>) = (bench, outcome)"
    by (cases "Run env pass (benchmark\<lparr>Benchmark.Server := (TrimSpace server0), JSON := True, Silent := True\<rparr>)")
  show ?thesis
  proof (cases outcome)
    case (Inl err)
    with ne run show ?thesis
      by (auto simp: batchPass_def Let_def serverBenchmark_def passYields_def)
  next
    case (Inr res)
    show ?thesis
    proof (cases "PrintReport env pass (bench\<lparr>Writer := BytesBuffer, Silent := False\<rparr>) res (getServerGeocode genv (TrimSpace server0))")
      case (Inl err)
      with ne run Inr show ?thesis
        by (auto simp: batchPass_def Let_def serverBenchmark_def passYields_def
            generateJSONForServer_def)
    next
      case jd: (Inr jsonData)
      show ?thesis
      proof (cases "Unmarshal env jsonData")
        case (Inl err)
        with ne run Inr jd show ?thesis
          by (auto simp: batchPass_def Let_def serverBenchmark_def passYields_def
              generateJSONForServer_def)
      next
        case ms: (Inr members)
        have p: "snd (batchPass genv env benchmark pass server0) =
            (case map_of members (TrimSpace server0) of
               Some serverResult \<Rightarrow> Some ((TrimSpace server0), serverResult)
             | None \<Rightarrow> (case members of [] \<Rightarrow> None | (k, r) # rest \<Rightarrow> Some ((TrimSpace server0), r)))"
          using ne run Inr jd ms
          by (simp add: batchPass_def Let_def serverBenchmark_def generateJSONForServer_def)
        have y: "passYields genv env benchmark pass (TrimSpace server0) result
            \<longleftrightarrow> members \<noteq> [] \<and> result = (case map_of members (TrimSpace server0) of Some r \<Rightarrow> r | None \<Rightarrow> snd (hd members))"
          using run Inr jd ms by (simp add: passYields_def)
        show ?thesis
        proof (cases members)
          case Nil
          then show ?thesis using p y ne by (auto simp:)
        next
          case (Cons m rest)
          then show ?thesis using p y ne
            by (cases m) (auto simp: split: option.splits)
        qed
      qed
    qed
  qed
qed

text \<open>The loop in terms of the outcomes of its passes.\<close>

lemma batchLoop_results:
  "fst (batchLoop genv env benchmark pass servers (batchResults, runs)) =
     fold (\<lambda>assignment m. case assignment of None \<Rightarrow> m | Some (key, result) \<Rightarrow> AList.update key result m)
       (map (\<lambda>i. snd (batchPass genv env benchmark (pass + i) (servers ! i))) [0..<length servers])
       batchResults"
proof (induction servers arbitrary: pass batchResults runs)
  case Nil
  then show ?case by simp
next
  case (Cons server servers)
  have u: "[0..<length (server # servers)] = 0 # map Suc [0..<length servers]"
    by (simp add: upt_conv_Cons map_Suc_upt del: upt_Suc)
  show ?case
    unfolding u
    by (cases "batchPass genv env benchmark pass server") (simp add: Cons.IH comp_def)
qed

lemma batchLoop_runs:
  "snd (batchLoop genv env benchmark pass servers (batchResults, runs)) =
     runs @ map (\<lambda>s. serverBenchmark benchmark (TrimSpace s)) (filter (\<lambda>s. TrimSpace s \<noteq> []) servers)"
proof (induction servers arbitrary: pass batchResults runs)
  case Nil
  then show ?case by simp
next
  case (Cons server servers)
  show ?case
    using batchPass_runs [of genv env benchmark pass server]
    by (cases "batchPass genv env benchmark pass server") (auto simp: Cons.IH)
qed

lemma fold_assign_distinct:
  "distinct (map fst m) \<Longrightarrow>
   distinct (map fst (fold (\<lambda>assignment m. case assignment of None \<Rightarrow> m | Some (key, result) \<Rightarrow> AList.update key result m) ops m))"
  by (induction ops arbitrary: m) (auto simp: distinct_update split: option.splits)

lemma fold_assign_last:
  "map_of (fold (\<lambda>assignment m. case assignment of None \<Rightarrow> m | Some (key, result) \<Rightarrow> AList.update key result m) ops []) k = Some v
     \<longleftrightarrow> (\<exists>i<length ops. ops ! i = Some (k, v)
            \<and> (\<forall>j. i < j \<and> j < length ops \<longrightarrow> (\<forall>v'. ops ! j \<noteq> Some (k, v'))))"
proof (induction ops rule: rev_induct)
  case Nil
  then show ?case by simp
next
  case (snoc a ops)
  let ?m = "fold (\<lambda>assignment m. case assignment of None \<Rightarrow> m | Some (key, result) \<Rightarrow> AList.update key result m) ops []"
  let ?P = "\<lambda>xs i. xs ! i = Some (k, v) \<and> (\<forall>j. i < j \<and> j < length xs \<longrightarrow> (\<forall>v'. xs ! j \<noteq> Some (k, v')))"
  have old: "?P (ops @ [a]) i \<longleftrightarrow> ?P ops i \<and> (\<forall>v'. a \<noteq> Some (k, v'))" if "i < length ops" for i
  proof
    assume l: "?P (ops @ [a]) i"
    have "ops ! i = Some (k, v)" using l that by (simp add: nth_append)
    moreover have "\<forall>j. i < j \<and> j < length ops \<longrightarrow> (\<forall>v'. ops ! j \<noteq> Some (k, v'))"
    proof (rule allI, rule impI)
      fix j assume j: "i < j \<and> j < length ops"
      then have "(ops @ [a]) ! j = ops ! j" by (simp add: nth_append)
      moreover from l j have "\<forall>v'. (ops @ [a]) ! j \<noteq> Some (k, v')" by simp
      ultimately show "\<forall>v'. ops ! j \<noteq> Some (k, v')" by simp
    qed
    moreover have "\<forall>v'. a \<noteq> Some (k, v')"
    proof -
      from l have "\<forall>j. i < j \<and> j < length (ops @ [a]) \<longrightarrow> (\<forall>v'. (ops @ [a]) ! j \<noteq> Some (k, v'))"
        by blast
      then have "i < length ops \<and> length ops < length (ops @ [a])
                   \<longrightarrow> (\<forall>v'. (ops @ [a]) ! length ops \<noteq> Some (k, v'))"
        by (rule allE)
      with that show ?thesis by simp
    qed
    ultimately show "?P ops i \<and> (\<forall>v'. a \<noteq> Some (k, v'))" by blast
  next
    assume r: "?P ops i \<and> (\<forall>v'. a \<noteq> Some (k, v'))"
    have "(ops @ [a]) ! i = Some (k, v)" using r that by (simp add: nth_append)
    moreover have "\<forall>j. i < j \<and> j < length (ops @ [a]) \<longrightarrow> (\<forall>v'. (ops @ [a]) ! j \<noteq> Some (k, v'))"
    proof (rule allI, rule impI)
      fix j assume j: "i < j \<and> j < length (ops @ [a])"
      show "\<forall>v'. (ops @ [a]) ! j \<noteq> Some (k, v')"
      proof (cases "j < length ops")
        case True
        with r j show ?thesis by (simp add: nth_append)
      next
        case False
        with j have "j = length ops" by simp
        with r show ?thesis by simp
      qed
    qed
    ultimately show "?P (ops @ [a]) i" by blast
  qed
  have new: "?P (ops @ [a]) (length ops) \<longleftrightarrow> a = Some (k, v)" by auto
  have split: "(\<exists>i<length (ops @ [a]). ?P (ops @ [a]) i)
      \<longleftrightarrow> a = Some (k, v) \<or> ((\<exists>i<length ops. ?P ops i) \<and> (\<forall>v'. a \<noteq> Some (k, v')))"
  proof -
    have "(\<exists>i<length (ops @ [a]). ?P (ops @ [a]) i)
        \<longleftrightarrow> ?P (ops @ [a]) (length ops) \<or> (\<exists>i<length ops. ?P (ops @ [a]) i)"
      by (auto simp: less_Suc_eq)
    also have "\<dots> \<longleftrightarrow> a = Some (k, v) \<or> (\<exists>i<length ops. ?P ops i \<and> (\<forall>v'. a \<noteq> Some (k, v')))"
      using old new by blast
    finally show ?thesis by blast
  qed
  have lhs: "map_of (fold (\<lambda>assignment m. case assignment of None \<Rightarrow> m | Some (key, result) \<Rightarrow> AList.update key result m) (ops @ [a]) []) k
      = (case a of None \<Rightarrow> map_of ?m k | Some (key, result) \<Rightarrow> if key = k then Some result else map_of ?m k)"
    by (cases a) (auto simp: update_conv')
  define L where "L = (map_of ?m k = Some v)"
  define R where "R = (\<exists>i<length ops. ?P ops i)"
  have ih: "L = R" unfolding L_def R_def by (rule snoc.IH)
  have "((case a of None \<Rightarrow> map_of ?m k | Some (key, result) \<Rightarrow> if key = k then Some result else map_of ?m k) = Some v)
          \<longleftrightarrow> a = Some (k, v) \<or> (R \<and> (\<forall>v'. a \<noteq> Some (k, v')))"
  proof (cases a)
    case None
    then show ?thesis using ih by (simp add: L_def)
  next
    case (Some kv)
    obtain k' r where kv: "kv = (k', r)" by (cases kv)
    show ?thesis
    proof (cases "k' = k")
      case True
      then show ?thesis by (auto simp: Some kv)
    next
      case False
      then show ?thesis using ih by (auto simp: Some kv L_def)
    qed
  qed
  then show ?case unfolding lhs split R_def .
qed

lemma MarshalIndent_keys: "map fst (MarshalIndent m) = sort (map fst m)"
proof -
  have "mset (map fst (sort_key fst m)) = mset (map fst m)" by simp
  moreover have "sorted (map fst (sort_key fst m))" by (rule sorted_sort_key)
  ultimately have "sort (map fst m) = map fst (sort_key fst m)" by (rule properties_for_sort)
  then show ?thesis by (simp add: MarshalIndent_def)
qed

subsection \<open>Sample runs\<close>

text \<open>
  Without a database every geocode is \<open>XX\<close>, so in the sample environment the successful
  sub-run of pass \<open>n\<close> on a server yields \<open>XX:\<close> followed by \<open>n\<close> signs \<open>+\<close>.
\<close>

lemma offline_geocode: "getServerGeocode offlineGeoEnv server = ''XX''"
  by (simp add: getServerGeocode_def NewGeoService_def dbPaths_def offlineGeoEnv_def)

lemma report_key:
  assumes "CHR ''='' \<notin> set name"
  shows "takeWhile (\<lambda>c. c \<noteq> CHR ''='') (name @ CHR ''='' # rest) = name"
    and "tl (dropWhile (\<lambda>c. c \<noteq> CHR ''='') (name @ CHR ''='' # rest)) = rest"
proof -
  have a: "\<forall>c \<in> set name. c \<noteq> CHR ''=''" using assms by auto
  then have "takeWhile (\<lambda>c. c \<noteq> CHR ''='') name = name" by (simp add: takeWhile_eq_all_conv)
  then show "takeWhile (\<lambda>c. c \<noteq> CHR ''='') (name @ CHR ''='' # rest) = name"
    by (simp add: takeWhile_tail)
  from a have "dropWhile (\<lambda>c. c \<noteq> CHR ''='') name = []" by (simp add: dropWhile_eq_Nil_conv)
  then show "tl (dropWhile (\<lambda>c. c \<noteq> CHR ''='') (name @ CHR ''='' # rest)) = rest"
    by (simp add: dropWhile_append3)
qed

lemma exampleBatchEnv_fields:
  "Run exampleBatchEnv pass bench =
     (bench, if Benchmark.Server bench = ''192.0.2.1'' then Inl ''i/o timeout'' else Inr (Benchmark.Server bench))"
  "PrintReport exampleBatchEnv pass bench res geocode = Inr (res @ ''='' @ geocode @ '':'' @ replicate pass (CHR ''+''))"
  "Unmarshal exampleBatchEnv jsonData
     = Inr [(takeWhile (\<lambda>c. c \<noteq> CHR ''='') jsonData, tl (dropWhile (\<lambda>c. c \<noteq> CHR ''='') jsonData))]"
  by (simp_all add: exampleBatchEnv_def)

lemma example_pass:
  assumes "TrimSpace server0 = name" and "name \<noteq> []" and "CHR ''='' \<notin> set name"
    and "name \<noteq> ''192.0.2.1''"
  shows "batchPass offlineGeoEnv exampleBatchEnv benchmark pass server0
     = ([serverBenchmark benchmark name], Some (name, ''XX:'' @ replicate pass (CHR ''+'')))"
  using assms(2,4) report_key [OF assms(3)]
  by (simp add: batchPass_def Let_def assms(1) generateJSONForServer_def offline_geocode
      serverBenchmark_def exampleBatchEnv_fields)

lemma example_pass_timeout:
  assumes "TrimSpace server0 = ''192.0.2.1''"
  shows "batchPass offlineGeoEnv exampleBatchEnv benchmark pass server0
     = ([serverBenchmark benchmark ''192.0.2.1''], None)"
  by (simp add: batchPass_def Let_def assms serverBenchmark_def exampleBatchEnv_fields)

lemma example_pass_empty:
  assumes "TrimSpace server0 = []"
  shows "batchPass genv env benchmark pass server0 = ([], None)"
  by (simp add: batchPass_def assms)

lemma example_trims:
  "TrimSpace '' b '' = ''b''" "TrimSpace ''a'' = ''a''" "TrimSpace [] = []" "TrimSpace ''b'' = ''b''"
  "TrimSpace ''8.8.8.8'' = ''8.8.8.8''" "TrimSpace ''1.1.1.1'' = ''1.1.1.1''"
  "TrimSpace '' 1.1.1.1'' = ''1.1.1.1''"
  "TrimSpace ''114.114.114.114'' = ''114.114.114.114''" "TrimSpace ''192.0.2.1'' = ''192.0.2.1''"
  by (simp_all add: TrimSpace_eval)

lemma example_splits:
  "Split '' b ,a,,b'' '','' = ['' b '', ''a'', [], ''b'']"
  "Split ''8.8.8.8,1.1.1.1,114.114.114.114'' '','' = [''8.8.8.8'', ''1.1.1.1'', ''114.114.114.114'']"
  "Split ''8.8.8.8,192.0.2.1'' '','' = [''8.8.8.8'', ''192.0.2.1'']"
  "Split ''8.8.8.8, 1.1.1.1'' '','' = [''8.8.8.8'', '' 1.1.1.1'']"
  "Split ''8.8.8.8'' '','' = [''8.8.8.8'']"
  by (simp_all add: Split.simps HasPrefix_def)

lemma example_loop_1:
  "batchLoop offlineGeoEnv exampleBatchEnv benchmark 0 ['' b '', ''a'', [], ''b''] ([], [])
     = ([(''b'', ''XX:+++''), (''a'', ''XX:+'')],
        [serverBenchmark benchmark ''b'', serverBenchmark benchmark ''a'', serverBenchmark benchmark ''b''])"
  by (simp add: example_pass [OF example_trims(1)] example_pass [OF example_trims(2)]
      example_pass [OF example_trims(4)] example_pass_empty [OF example_trims(3)] numeral_3_eq_3)

lemma example_output_1:
  "runBatchBenchmark offlineGeoEnv exampleBatchEnv benchmark '' b ,a,,b''
     = Inr [(''a'', ''XX:+''), (''b'', ''XX:+++'')]"
proof -
  have "fst (batchLoop offlineGeoEnv exampleBatchEnv benchmark 0 (Split '' b ,a,,b'' '','') ([], []))
      = [(''b'', ''XX:+++''), (''a'', ''XX:+'')]"
    by (simp only: example_splits example_loop_1 fst_conv)
  moreover have "length (Split '' b ,a,,b'' '','') \<noteq> 0" by (simp only: example_splits) simp
  ultimately show ?thesis
    by (simp add: runBatchBenchmark_def Let_def MarshalIndent_def del: batchLoop.simps)
qed

lemma example_loop_2:
  "batchLoop offlineGeoEnv exampleBatchEnv benchmark 0 [''8.8.8.8'', ''1.1.1.1'', ''114.114.114.114''] ([], [])
     = ([(''8.8.8.8'', ''XX:''), (''1.1.1.1'', ''XX:+''), (''114.114.114.114'', ''XX:++'')],
        [serverBenchmark benchmark ''8.8.8.8'', serverBenchmark benchmark ''1.1.1.1'',
         serverBenchmark benchmark ''114.114.114.114''])"
  by (simp add: example_pass [OF example_trims(5)] example_pass [OF example_trims(6)]
      example_pass [OF example_trims(8)] numeral_2_eq_2)

lemma example_loop_3:
  "batchLoop offlineGeoEnv exampleBatchEnv benchmark 0 [''8.8.8.8'', ''192.0.2.1''] ([], [])
     = ([(''8.8.8.8'', ''XX:'')],
        [serverBenchmark benchmark ''8.8.8.8'', serverBenchmark benchmark ''192.0.2.1''])"
  by (simp add: example_pass [OF example_trims(5)] example_pass_timeout [OF example_trims(9)])

lemma example_loop_4:
  "batchLoop offlineGeoEnv exampleBatchEnv benchmark 0 [''8.8.8.8'', '' 1.1.1.1''] ([], [])
     = ([(''8.8.8.8'', ''XX:''), (''1.1.1.1'', ''XX:+'')],
        [serverBenchmark benchmark ''8.8.8.8'', serverBenchmark benchmark ''1.1.1.1''])"
  by (simp add: example_pass [OF example_trims(5)] example_pass [OF example_trims(7)])

lemma example_loop_5:
  "batchLoop offlineGeoEnv exampleBatchEnv benchmark 0 [''8.8.8.8''] ([], [])
     = ([(''8.8.8.8'', ''XX:'')], [serverBenchmark benchmark ''8.8.8.8''])"
  by (simp add: example_pass [OF example_trims(5)])

lemma string_order_examples:
  "''1.1.1.1'' < ''114.114.114.114''" "''114.114.114.114'' < ''8.8.8.8''" "''1.1.1.1'' < ''8.8.8.8''"
  "\<not> ''8.8.8.8'' \<le> ''1.1.1.1''" "\<not> ''8.8.8.8'' \<le> ''114.114.114.114''"
  "\<not> ''114.114.114.114'' \<le> ''1.1.1.1''"
  by simp_all

lemma example_output_2:
  "runBatchBenchmark offlineGeoEnv exampleBatchEnv benchmark ''8.8.8.8,1.1.1.1,114.114.114.114''
     = Inr [(''1.1.1.1'', ''XX:+''), (''114.114.114.114'', ''XX:++''), (''8.8.8.8'', ''XX:'')]"
proof -
  have "fst (batchLoop offlineGeoEnv exampleBatchEnv benchmark 0
          (Split ''8.8.8.8,1.1.1.1,114.114.114.114'' '','') ([], []))
      = [(''8.8.8.8'', ''XX:''), (''1.1.1.1'', ''XX:+''), (''114.114.114.114'', ''XX:++'')]"
    by (simp only: example_splits example_loop_2 fst_conv)
  moreover have "length (Split ''8.8.8.8,1.1.1.1,114.114.114.114'' '','') \<noteq> 0"
    by (simp only: example_splits) simp
  ultimately show ?thesis
    by (simp add: runBatchBenchmark_def Let_def MarshalIndent_def string_order_examples
        del: batchLoop.simps)
qed

lemma example_output_3:
  "runBatchBenchmark offlineGeoEnv exampleBatchEnv benchmark ''8.8.8.8,192.0.2.1''
     = Inr [(''8.8.8.8'', ''XX:'')]"
proof -
  have "fst (batchLoop offlineGeoEnv exampleBatchEnv benchmark 0
          (Split ''8.8.8.8,192.0.2.1'' '','') ([], []))
      = [(''8.8.8.8'', ''XX:'')]"
    by (simp only: example_splits example_loop_3 fst_conv)
  moreover have "length (Split ''8.8.8.8,192.0.2.1'' '','') \<noteq> 0"
    by (simp only: example_splits) simp
  ultimately show ?thesis
    by (simp add: runBatchBenchmark_def Let_def MarshalIndent_def del: batchLoop.simps)
qed

lemma example_output_4:
  "runBatchBenchmark offlineGeoEnv exampleBatchEnv benchmark ''8.8.8.8, 1.1.1.1''
     = Inr [(''1.1.1.1'', ''XX:+''), (''8.8.8.8'', ''XX:'')]"
proof -
  have "fst (batchLoop offlineGeoEnv exampleBatchEnv benchmark 0
          (Split ''8.8.8.8, 1.1.1.1'' '','') ([], []))
      = [(''8.8.8.8'', ''XX:''), (''1.1.1.1'', ''XX:+'')]"
    by (simp only: example_splits example_loop_4 fst_conv)
  moreover have "length (Split ''8.8.8.8, 1.1.1.1'' '','') \<noteq> 0"
    by (simp only: example_splits) simp
  ultimately show ?thesis
    by (simp add: runBatchBenchmark_def Let_def MarshalIndent_def string_order_examples
        del: batchLoop.simps)
qed

lemma example_runs_1:
  "map (\<lambda>s. exampleBenchmark\<lparr>Benchmark.Server := TrimSpace s, JSON := True, Silent := True\<rparr>)
     (filter (\<lambda>s. TrimSpace s \<noteq> []) (Split '' b ,a,,b'' '',''))
   = [exampleBenchmark\<lparr>Benchmark.Server := ''b'', JSON := True, Silent := True\<rparr>,
      exampleBenchmark\<lparr>Benchmark.Server := ''a'', JSON := True, Silent := True\<rparr>,
      exampleBenchmark\<lparr>Benchmark.Server := ''b'', JSON := True, Silent := True\<rparr>]"
  by (simp add: example_splits example_trims)

subsection \<open>The configuration of a sub-run\<close>




subsection \<open>The object written to standard output\<close>




section \<open>The exit status\<close>

text \<open>
  C8. After a single-server run that returned no error and whose report was printed without
  error, the process exits with status 1 if a condition configured by \<open>--fail\<close> has a
  positive counter (\<open>ioerror\<close>: IOError, \<open>negative\<close>: Negative, \<open>error\<close>: Error,
  \<open>idmismatch\<close>: IDmismatch), and with status 0 otherwise.
\<close>

theorem ExecuteExit_fail_conditions:
  "ExecuteExit None None failConditions counters =
     (if (''ioerror'' \<in> set failConditions \<and> 0 < sint (IOError counters))
       \<or> (''negative'' \<in> set failConditions \<and> 0 < sint (Negative counters))
       \<or> (''error'' \<in> set failConditions \<and> 0 < sint (Error counters))
       \<or> (''idmismatch'' \<in> set failConditions \<and> 0 < sint (IDmismatch counters))
      then 1 else 0)"
proof -
  have loop: "failLoop fs counters =
     (if (''ioerror'' \<in> set fs \<and> 0 < sint (IOError counters))
       \<or> (''negative'' \<in> set fs \<and> 0 < sint (Negative counters))
       \<or> (''error'' \<in> set fs \<and> 0 < sint (Error counters))
       \<or> (''idmismatch'' \<in> set fs \<and> 0 < sint (IDmismatch counters))
      then Some 1 else None)" for fs
  proof (induction fs)
    case Nil
    then show ?case by simp
  next
    case (Cons f fs)
    show ?case
      unfolding failLoop.simps Cons.IH
      by (auto simp: ioerrorFailCondition_def negativeFailCondition_def errorFailCondition_def
          idmismatchFailCondition_def)
  qed
  show ?thesis
  proof (cases failConditions)
    case Nil
    then show ?thesis by (simp add: ExecuteExit_def)
  next
    case (Cons f fs)
    then have "ExecuteExit None None failConditions counters =
        (case failLoop failConditions counters of Some status \<Rightarrow> status | None \<Rightarrow> 0)"
      by (simp add: ExecuteExit_def)
    then show ?thesis unfolding loop by simp
  qed
qed

text \<open>
  The theorem at counters with 7 negative and 2 error responses: \<open>--fail ioerror --fail error\<close>
  exits with 1, \<open>--fail ioerror --fail idmismatch\<close> with 0.
\<close>

theorem ExecuteExit_fail_conditions_witness:
  "ExecuteExit None None [''ioerror'', ''error'']
      \<lparr>IOError = 0, Negative = 7, Error = 2, IDmismatch = 0\<rparr> = 1
   \<and> ExecuteExit None None [''ioerror'', ''idmismatch'']
      \<lparr>IOError = 0, Negative = 7, Error = 2, IDmismatch = 0\<rparr> = 0"
  using ExecuteExit_fail_conditions [of "[''ioerror'', ''error'']" "\<lparr>IOError = 0, Negative = 7, Error = 2, IDmismatch = 0\<rparr>"]
    ExecuteExit_fail_conditions [of "[''ioerror'', ''idmismatch'']" "\<lparr>IOError = 0, Negative = 7, Error = 2, IDmismatch = 0\<rparr>"]
  by simp

end
